theory Spec2Isabelle
  imports Complex_Main "HOL-Library.Word"
begin

section \<open>Data model\<close>

text \<open>
  The module \<^verbatim>\<open>Polygon/IO.py\<close> reads and writes Polygon objects of the geometry engine
  \<^verbatim>\<open>Polygon.cPolygon\<close>, which is not part of the sources. A polygon is seen by the module
  only through iteration over its contours, \<^verbatim>\<open>len\<close>, \<^verbatim>\<open>isHole(i)\<close> and the engine's
  methods, so a polygon value is the ordered list of its contours, each a list of points
  with its hole flag. The coordinate type is a parameter: the binary codec moves IEEE-754
  bit patterns (\<open>double\<close>), the renderers compute with coordinates (\<open>real\<close>).
\<close>

type_synonym byte = "8 word"

type_synonym double = "64 word"

type_synonym 'c point = "'c \<times> 'c"

type_synonym 'c contour = "'c point list"

type_synonym 'c polygon = "('c contour \<times> bool) list"

text \<open>
  Every \<^verbatim>\<open>raise\<close>, failing \<^verbatim>\<open>assert\<close> and failing library call of the module is a value
  of \<open>error\<close>. The constructors are named after the place that raises:
  \<^item> \<open>TruncatedInput\<close>: \<^verbatim>\<open>struct.error\<close> of \<^verbatim>\<open>unpack\<close> on a buffer shorter than the format;
  \<^item> \<open>StructRange\<close>: \<^verbatim>\<open>struct.error\<close> of \<^verbatim>\<open>pack\<close> (a number outside the field, a wrong
    argument count);
  \<^item> \<open>IndexError\<close>: an index outside a sequence;
  \<^item> \<open>UnsupportedDestination\<close>, \<open>UnsupportedSource\<close>: the two \<^verbatim>\<open>raise Exception(...)\<close>
    of the stream resolvers;
  \<^item> \<open>OSError\<close>: \<^verbatim>\<open>open\<close> fails; \<open>ValueError\<close>: \<^verbatim>\<open>float\<close> or \<^verbatim>\<open>int\<close> rejects a
    string, or a closed stream is read or written;
  \<^item> \<open>ParseError\<close>: \<^verbatim>\<open>parseString\<close> rejects the text;
  \<^item> \<open>AssertionError\<close>: \<^verbatim>\<open>assert sn.tagName == 'contour'\<close>; \<open>StructuralMismatch\<close>: the
    two count assertions of \<^verbatim>\<open>readXML\<close> (AssertionError as well, in Python);
  \<^item> \<open>DegenerateExtent\<close>, \<open>LabelCountMismatch\<close>, \<open>LabelCoordMismatch\<close>: the three
    \<^verbatim>\<open>raise Error(...)\<close> of the renderers, in source order. The name \<^verbatim>\<open>Error\<close> is bound
    nowhere in the module, so each of them surfaces as a NameError; the model keeps the
    three places apart;
  \<^item> \<open>ZeroDivisionError\<close>: a float division by zero; \<open>TypeError\<close>: \<^verbatim>\<open>None\<close> where a
    number is formatted.
\<close>

datatype error =
    TruncatedInput
  | StructRange
  | IndexError
  | UnsupportedDestination
  | UnsupportedSource
  | OSError
  | ValueError
  | ParseError
  | AssertionError
  | StructuralMismatch
  | DegenerateExtent
  | LabelCountMismatch
  | LabelCoordMismatch
  | ZeroDivisionError
  | TypeError

section \<open>Helpers\<close>

text \<open>\<^verbatim>\<open>__flatten(s)\<close>: the elements of the elements of \<open>s\<close>; a point is a pair.\<close>

definition flatten :: "'c contour \<Rightarrow> 'c list" where
  "flatten s = concat (map (\<lambda>(x, y). [x, y]) s)"

text \<open>
  \<^verbatim>\<open>__couples(s)\<close>: \<^verbatim>\<open>s[i], s[i+1]\<close> for \<open>i = 0, 2, 4, ...\<close> below \<^verbatim>\<open>len(s)\<close>; on a
  sequence of odd length the last \<^verbatim>\<open>s[i+1]\<close> raises IndexError.
\<close>

fun couples :: "'a list \<Rightarrow> error + ('a \<times> 'a) list" where
  "couples [] = Inr []"
| "couples [x] = Inl IndexError"
| "couples (x # y # s) =
     (case couples s of Inl e \<Rightarrow> Inl e | Inr ps \<Rightarrow> Inr ((x, y) # ps))"

subsection \<open>The struct formats\<close>

text \<open>
  Network byte order: the most significant byte first. \<open>be_bytes k v\<close> are the \<open>k\<close> low
  bytes of \<open>v\<close> (two's complement for a negative \<open>v\<close>), \<open>be_int\<close> reads bytes as an
  unsigned number.
\<close>

fun be_bytes :: "nat \<Rightarrow> int \<Rightarrow> byte list" where
  "be_bytes 0 v = []"
| "be_bytes (Suc k) v = be_bytes k (v div 256) @ [word_of_int (v mod 256)]"

definition be_int :: "byte list \<Rightarrow> int" where
  "be_int bs = foldl (\<lambda>a b. a * 256 + uint b) 0 bs"

text \<open>\<^verbatim>\<open>pack('!I', v)\<close>: an unsigned 32-bit field; a number outside it is refused.\<close>

definition pack_I :: "int \<Rightarrow> error + byte list" where
  "pack_I v = (if 0 \<le> v \<and> v < 2 ^ 32 then Inr (be_bytes 4 v) else Inl StructRange)"

text \<open>\<^verbatim>\<open>pack('!l', v)\<close>: a signed 32-bit field.\<close>

definition pack_l :: "int \<Rightarrow> error + byte list" where
  "pack_l v = (if - (2 ^ 31) \<le> v \<and> v < 2 ^ 31 then Inr (be_bytes 4 v) else Inl StructRange)"

text \<open>
  \<^verbatim>\<open>pack('!%dd' % n, *vs)\<close>: \<open>n\<close> doubles, eight bytes each; the argument count must
  be \<open>n\<close>. A double is its 64-bit pattern, which \<^verbatim>\<open>pack\<close> writes and \<^verbatim>\<open>unpack\<close> reads
  unchanged.
\<close>

definition pack_d :: "nat \<Rightarrow> double list \<Rightarrow> error + byte list" where
  "pack_d n vs =
     (if length vs = n then Inr (concat (map (\<lambda>w. be_bytes 8 (uint w)) vs))
      else Inl StructRange)"

text \<open>
  \<^verbatim>\<open>__unpack(f, b)\<close> is \<^verbatim>\<open>unpack(f, b[:s]), b[s:]\<close> with \<^verbatim>\<open>s = calcsize(f)\<close>, and
  \<^verbatim>\<open>unpack\<close> raises unless the slice has exactly \<open>s\<close> bytes. \<open>unpack_raw s b\<close> is the
  slice and the rest; the three formats of the module read the slice.
\<close>

definition unpack_raw :: "nat \<Rightarrow> byte list \<Rightarrow> error + (byte list \<times> byte list)" where
  "unpack_raw s b =
     (if length (take s b) = s then Inr (take s b, drop s b) else Inl TruncatedInput)"

definition unpack_I :: "byte list \<Rightarrow> error + (int \<times> byte list)" where
  "unpack_I b =
     (case unpack_raw 4 b of Inl e \<Rightarrow> Inl e | Inr (h, r) \<Rightarrow> Inr (be_int h, r))"

definition unpack_l :: "byte list \<Rightarrow> error + (int \<times> byte list)" where
  "unpack_l b =
     (case unpack_raw 4 b of Inl e \<Rightarrow> Inl e
      | Inr (h, r) \<Rightarrow>
          Inr (if be_int h < 2 ^ 31 then be_int h else be_int h - 2 ^ 32, r))"

primrec doubles_of :: "nat \<Rightarrow> byte list \<Rightarrow> double list" where
  "doubles_of 0 h = []"
| "doubles_of (Suc n) h = word_of_int (be_int (take 8 h)) # doubles_of n (drop 8 h)"

definition unpack_d :: "nat \<Rightarrow> byte list \<Rightarrow> error + (double list \<times> byte list)" where
  "unpack_d n b =
     (case unpack_raw (8 * n) b of Inl e \<Rightarrow> Inl e
      | Inr (h, r) \<Rightarrow> Inr (doubles_of n h, r))"

subsection \<open>The ring buffer\<close>

text \<open>
  \<^verbatim>\<open>__RingBuffer\<close>: the fields \<^verbatim>\<open>s\<close>, \<^verbatim>\<open>i\<close> and \<^verbatim>\<open>l\<close> (the sequence, the cursor and
  the length taken at construction) are \<open>rb_s\<close>, \<open>rb_i\<close> and \<open>rb_l\<close>. A call returns
  \<^verbatim>\<open>s[i]\<close> (IndexError when the cursor is outside the sequence) and advances the cursor,
  back to 0 when it reaches the length.
\<close>

record 'a RingBuffer =
  rb_s :: "'a list"
  rb_i :: nat
  rb_l :: nat

definition RingBuffer_init :: "'a list \<Rightarrow> 'a RingBuffer" where
  "RingBuffer_init seq = \<lparr>rb_s = seq, rb_i = 0, rb_l = length seq\<rparr>"

definition RingBuffer_call :: "'a RingBuffer \<Rightarrow> error + ('a \<times> 'a RingBuffer)" where
  "RingBuffer_call rb =
     (if rb_i rb < length (rb_s rb)
      then Inr (rb_s rb ! rb_i rb,
                rb\<lparr>rb_i := (if rb_i rb + 1 = rb_l rb then 0 else rb_i rb + 1)\<rparr>)
      else Inl IndexError)"

text \<open>\<open>RingBuffer_calls n rb\<close>: the values of \<open>n\<close> successive calls and the buffer after them.\<close>

fun RingBuffer_calls :: "nat \<Rightarrow> 'a RingBuffer \<Rightarrow> error + ('a list \<times> 'a RingBuffer)" where
  "RingBuffer_calls 0 rb = Inr ([], rb)"
| "RingBuffer_calls (Suc n) rb =
     (case RingBuffer_call rb of Inl e \<Rightarrow> Inl e
      | Inr (v, rb') \<Rightarrow>
          (case RingBuffer_calls n rb' of Inl e \<Rightarrow> Inl e
           | Inr (vs, rb'') \<Rightarrow> Inr (v # vs, rb'')))"

section \<open>The binary codec\<close>

text \<open>
  Modelled from the spec: \<^verbatim>\<open>Polygon.addContour\<close> of the geometry engine, which is not in
  the sources. It appends a contour with its hole flag to the polygon, behind the
  contours already there.
\<close>

definition addContour :: "'c polygon \<Rightarrow> 'c contour \<Rightarrow> bool \<Rightarrow> 'c polygon" where
  "addContour p c isHole = p @ [(c, isHole)]"

text \<open>
  \<^verbatim>\<open>encodeBinary(p)\<close>: the list \<open>l\<close> of packed fields, joined. The loop over the contours
  appends the signed point count and the flattened coordinates of each.
\<close>

fun encode_contours :: "double polygon \<Rightarrow> error + byte list list" where
  "encode_contours [] = Inr []"
| "encode_contours ((c, isHole) # p) =
     (case pack_l (int (length c) * (if isHole then - 1 else 1)) of Inl e \<Rightarrow> Inl e
      | Inr a \<Rightarrow>
          (case pack_d (2 * length c) (flatten c) of Inl e \<Rightarrow> Inl e
           | Inr d \<Rightarrow>
               (case encode_contours p of Inl e \<Rightarrow> Inl e
                | Inr l \<Rightarrow> Inr (a # d # l))))"

definition encodeBinary :: "double polygon \<Rightarrow> error + byte list" where
  "encodeBinary p =
     (case pack_I (int (length p)) of Inl e \<Rightarrow> Inl e
      | Inr h \<Rightarrow>
          (case encode_contours p of Inl e \<Rightarrow> Inl e
           | Inr l \<Rightarrow> Inr (concat (h # l))))"

text \<open>
  \<^verbatim>\<open>decodeBinary(bin)\<close>: the loop \<^verbatim>\<open>for i in range(nC[0])\<close> carries the rest \<open>b\<close> of the
  buffer and the polygon \<open>p\<close> built so far.
\<close>

fun decode_contours :: "nat \<Rightarrow> byte list \<Rightarrow> double polygon \<Rightarrow> error + double polygon" where
  "decode_contours 0 b p = Inr p"
| "decode_contours (Suc k) b p =
     (case unpack_l b of Inl e \<Rightarrow> Inl e
      | Inr (x, b1) \<Rightarrow>
          (let isHole = (x < 0);
               s = (if x < 0 then - 2 * x else 2 * x)
           in case unpack_d (nat s) b1 of Inl e \<Rightarrow> Inl e
              | Inr (flat, b2) \<Rightarrow>
                  (case couples flat of Inl e \<Rightarrow> Inl e
                   | Inr c \<Rightarrow> decode_contours k b2 (addContour p c isHole))))"

definition decodeBinary :: "byte list \<Rightarrow> error + double polygon" where
  "decodeBinary bin =
     (case unpack_I bin of Inl e \<Rightarrow> Inl e
      | Inr (nC, b) \<Rightarrow> decode_contours (nat nC) b [])"

section \<open>Objects, streams and the outside world\<close>

text \<open>
  The writers and \<^verbatim>\<open>readXML\<close> work on objects that other code can see: Polygon objects
  (which \<^verbatim>\<open>flop\<close> and \<^verbatim>\<open>warpToBox\<close> change in place) and streams (which are written
  and closed). Both live in a store: a Polygon reference and a stream handle are
  indices into it, a new object is appended. The file system is what \<^verbatim>\<open>open\<close> sees: the
  texts of the readable files, and the paths that cannot be opened for writing.

  A formatted string is kept as its format and its arguments: every constructor of
  \<open>svg_line\<close>, \<open>xml_line\<close> and \<open>chunk\<close> stands for one format string of the module.
  A style value (a colour triple, a number, a name) is a \<open>style\<close>.
\<close>

type_synonym bbox = "real \<times> real \<times> real \<times> real"

datatype style = Rgb int int int | Num real | Named string

datatype svg_line =
    SvgXmlDecl
  | SvgDoctype
  | SvgOpen real real
  | SvgPath style style style style "(real point \<times> real point list) list"
  | SvgGroupOpen
  | SvgText real real string string string
  | SvgGroupClose
  | SvgEnd

datatype xml_line =
    XmlPolygon nat real bbox
  | XmlContour nat bool real bbox
  | XmlPoint real real
  | XmlContourEnd
  | XmlPolygonEnd

datatype chunk =
    GnuplotPoint real real
  | GnuplotClose real real
  | GnuplotTriangle "real point" "real point" "real point"
  | GnuplotBlank
  | SvgDocument "svg_line list"
  | XmlHeader
  | XmlJoined "xml_line list"

record stream =
  s_closed :: bool
  s_text :: string
  s_written :: "chunk list"

record world =
  polys :: "real polygon list"
  streams :: "stream list"
  files :: "(string \<times> string) list"
  unwritable :: "string list"

text \<open>
  An operation takes the world and returns its result, a value or the error raised,
  with the world as it is then: what was done before an error stays done.
\<close>

type_synonym 'a io = "world \<Rightarrow> (error + 'a) \<times> world"

definition io_return :: "'a \<Rightarrow> 'a io" where
  "io_return x = (\<lambda>w. (Inr x, w))"

definition io_raise :: "error \<Rightarrow> 'a io" where
  "io_raise e = (\<lambda>w. (Inl e, w))"

definition io_lift :: "error + 'a \<Rightarrow> 'a io" where
  "io_lift r = (\<lambda>w. (r, w))"

definition io_gets :: "(world \<Rightarrow> 'a) \<Rightarrow> 'a io" where
  "io_gets g = (\<lambda>w. (Inr (g w), w))"

definition io_bind :: "'a io \<Rightarrow> ('a \<Rightarrow> 'b io) \<Rightarrow> 'b io" where
  "io_bind m k = (\<lambda>w. case m w of (Inl e, w') \<Rightarrow> (Inl e, w') | (Inr x, w') \<Rightarrow> k x w')"

text \<open>A \<^verbatim>\<open>for\<close> loop over a list, with the variables the body assigns as the loop state.\<close>

fun fold_io :: "'a list \<Rightarrow> ('a \<Rightarrow> 'st \<Rightarrow> 'st io) \<Rightarrow> 'st \<Rightarrow> 'st io" where
  "fold_io [] body st = io_return st"
| "fold_io (x # xs) body st = io_bind (body x st) (fold_io xs body)"

definition for_each :: "'a list \<Rightarrow> ('a \<Rightarrow> unit io) \<Rightarrow> unit io" where
  "for_each xs body = fold_io xs (\<lambda>x u. body x) ()"

text \<open>\<^verbatim>\<open>xs[i]\<close> with \<open>i\<close> not negative.\<close>

definition nth_py :: "'a list \<Rightarrow> nat \<Rightarrow> error + 'a" where
  "nth_py xs n = (if n < length xs then Inr (xs ! n) else Inl IndexError)"

text \<open>Float division raises on a zero divisor.\<close>

definition pdiv :: "real \<Rightarrow> real \<Rightarrow> error + real" where
  "pdiv x y = (if y = 0 then Inl ZeroDivisionError else Inr (x / y))"

subsection \<open>Streams\<close>

definition new_stream :: "string \<Rightarrow> nat io" where
  "new_stream txt =
     (\<lambda>w. (Inr (length (streams w)),
           w\<lparr>streams := streams w @ [\<lparr>s_closed = False, s_text = txt, s_written = []\<rparr>]\<rparr>))"

text \<open>\<^verbatim>\<open>f.write(x)\<close> and \<^verbatim>\<open>f.read()\<close> raise ValueError on a closed stream.\<close>

definition fwrite :: "nat \<Rightarrow> chunk \<Rightarrow> unit io" where
  "fwrite f x =
     (\<lambda>w. if s_closed (streams w ! f) then (Inl ValueError, w)
          else (Inr (),
                w\<lparr>streams := (streams w)
                     [f := (streams w ! f)\<lparr>s_written := s_written (streams w ! f) @ [x]\<rparr>]\<rparr>))"

definition fread :: "nat \<Rightarrow> string io" where
  "fread f =
     (\<lambda>w. if s_closed (streams w ! f) then (Inl ValueError, w)
          else (Inr (s_text (streams w ! f)), w))"

definition fclose :: "nat \<Rightarrow> unit io" where
  "fclose f = (\<lambda>w. (Inr (), w\<lparr>streams := (streams w)[f := (streams w ! f)\<lparr>s_closed := True\<rparr>]\<rparr>))"

text \<open>
  The argument of a writer: \<^verbatim>\<open>None\<close>, a string, an object with a \<^verbatim>\<open>write\<close> attribute
  (a stream), or anything else. The argument of a reader likewise.
\<close>

datatype ofile_arg = ONone | OPath string | OStream nat | OOther

datatype ifile_arg = IPath string | IStream nat | IOther

text \<open>
  \<^verbatim>\<open>getWritableObject(ofile)\<close>: the stream and whether it is to be closed after writing.
\<close>

fun getWritableObject :: "ofile_arg \<Rightarrow> (nat \<times> bool) io" where
  "getWritableObject ONone = io_bind (new_stream []) (\<lambda>f. io_return (f, False))"
| "getWritableObject (OPath name) =
     (\<lambda>w. if name \<in> set (unwritable w) then (Inl OSError, w)
          else io_bind (new_stream []) (\<lambda>f. io_return (f, True)) w)"
| "getWritableObject (OStream f) = io_return (f, False)"
| "getWritableObject OOther = io_raise UnsupportedDestination"

text \<open>
  \<^verbatim>\<open>getReadableObject(ifile)\<close>: a string is first tried as a file name and, when \<^verbatim>\<open>open\<close>
  fails, read as the text itself.
\<close>

fun getReadableObject :: "ifile_arg \<Rightarrow> (nat \<times> bool) io" where
  "getReadableObject (IPath name) =
     (\<lambda>w. case map_of (files w) name of
            Some txt \<Rightarrow> io_bind (new_stream txt) (\<lambda>f. io_return (f, True)) w
          | None \<Rightarrow> io_bind (new_stream name) (\<lambda>f. io_return (f, True)) w)"
| "getReadableObject (IStream f) = io_return (f, False)"
| "getReadableObject IOther = io_raise UnsupportedSource"

subsection \<open>The geometry engine\<close>

text \<open>
  The methods of \<^verbatim>\<open>Polygon.cPolygon\<close> that the module calls are parameters of the model:
  what they compute from the contours of a polygon. \<open>area_i\<close> and \<open>boundingBox_i\<close> are
  \<^verbatim>\<open>p.area(i)\<close> and \<^verbatim>\<open>p.boundingBox(i)\<close>. A method that changes its polygon (\<^verbatim>\<open>flop\<close>,
  \<^verbatim>\<open>warpToBox\<close>) gives the new contours, which the model stores at the polygon's place.
\<close>

record engine =
  flop :: "real \<Rightarrow> real polygon \<Rightarrow> real polygon"
  boundingBox :: "real polygon \<Rightarrow> bbox"
  warpToBox :: "real \<Rightarrow> real \<Rightarrow> real \<Rightarrow> real \<Rightarrow> real polygon \<Rightarrow> real polygon"
  center :: "real polygon \<Rightarrow> real point"
  triStrip :: "real polygon \<Rightarrow> real contour list"
  area :: "real polygon \<Rightarrow> real"
  area_i :: "real polygon \<Rightarrow> nat \<Rightarrow> real"
  boundingBox_i :: "real polygon \<Rightarrow> nat \<Rightarrow> bbox"

text \<open>\<^verbatim>\<open>Polygon(p)\<close>: a new Polygon object with the contours of \<open>p\<close>.\<close>

definition Polygon_copy :: "nat \<Rightarrow> nat io" where
  "Polygon_copy p = (\<lambda>w. (Inr (length (polys w)), w\<lparr>polys := polys w @ [polys w ! p]\<rparr>))"

definition Polygon_update :: "nat \<Rightarrow> (real polygon \<Rightarrow> real polygon) \<Rightarrow> unit io" where
  "Polygon_update p g = (\<lambda>w. (Inr (), w\<lparr>polys := (polys w)[p := g (polys w ! p)]\<rparr>))"

definition Polygon_get :: "nat \<Rightarrow> real polygon io" where
  "Polygon_get p = io_gets (\<lambda>w. polys w ! p)"

text \<open>
  A contour without points is written with the count 0, which carries no sign: the
  decoder reads it back as a solid contour. \<open>solid_if_empty\<close> is what the decoder
  returns for the encoding of a polygon.
\<close>

definition solid_if_empty :: "'c polygon \<Rightarrow> 'c polygon" where
  "solid_if_empty p = map (\<lambda>(c, h). (c, h \<and> c \<noteq> [])) p"

section \<open>The writers\<close>

text \<open>
  A list of polygons is a list of references to Polygon objects. Every writer resolves
  its \<^verbatim>\<open>ofile\<close> argument first; \<^verbatim>\<open>if cl: f.close()\<close> is the last statement but one.
\<close>

definition close_if :: "bool \<Rightarrow> nat \<Rightarrow> unit io" where
  "close_if cl f = (if cl then fclose f else io_return ())"

subsection \<open>Gnuplot\<close>

text \<open>
  \<^verbatim>\<open>writeGnuplot\<close>: every point of a contour on a line, then the first point again
  (\<^verbatim>\<open>vl[0]\<close>, IndexError on a contour without points).
\<close>

definition writeGnuplot :: "ofile_arg \<Rightarrow> nat list \<Rightarrow> nat io" where
  "writeGnuplot ofile polylist =
     io_bind (getWritableObject ofile) (\<lambda>(f, cl).
     io_bind (for_each polylist (\<lambda>p.
       io_bind (Polygon_get p) (\<lambda>pv.
       for_each (map fst pv) (\<lambda>vl.
         io_bind (for_each vl (\<lambda>j. fwrite f (GnuplotPoint (fst j) (snd j)))) (\<lambda>u.
         io_bind (io_lift (nth_py vl 0)) (\<lambda>v0.
         fwrite f (GnuplotClose (fst v0) (snd v0)))))))) (\<lambda>u.
     io_bind (close_if cl f) (\<lambda>u.
     io_return f)))"

text \<open>
  \<^verbatim>\<open>writeGnuplotTriangles\<close>: the triangles of every strip of the engine's triangulation.
  After \<^verbatim>\<open>if cl: f.close()\<close> comes a second \<^verbatim>\<open>f.close()\<close> without a condition, and
  nothing is returned.
\<close>

definition writeGnuplotTriangles :: "engine \<Rightarrow> ofile_arg \<Rightarrow> nat list \<Rightarrow> unit io" where
  "writeGnuplotTriangles eng ofile polylist =
     io_bind (getWritableObject ofile) (\<lambda>(f, cl).
     io_bind (for_each polylist (\<lambda>p.
       io_bind (Polygon_get p) (\<lambda>pv.
       for_each (triStrip eng pv) (\<lambda>vl.
         io_bind (for_each [0..<length vl - 2] (\<lambda>j.
           fwrite f (GnuplotTriangle (vl ! j) (vl ! (j + 1)) (vl ! (j + 2))))) (\<lambda>u.
         fwrite f GnuplotBlank))))) (\<lambda>u.
     io_bind (close_if cl f) (\<lambda>u.
     fclose f)))"

subsection \<open>XML\<close>

text \<open>The lines \<open>l\<close> that \<^verbatim>\<open>writeXML\<close> joins for one polygon.\<close>

definition xml_lines :: "engine \<Rightarrow> real polygon \<Rightarrow> xml_line list" where
  "xml_lines eng pv =
     XmlPolygon (length pv) (area eng pv) (boundingBox eng pv) #
     concat (map (\<lambda>(n, (c, h)).
        XmlContour (length c) h (area_i eng pv n) (boundingBox_i eng pv n) #
        map (\<lambda>po. XmlPoint (fst po) (snd po)) c @ [XmlContourEnd]) (enumerate 0 pv)) @
     [XmlPolygonEnd]"

definition writeXML :: "engine \<Rightarrow> ofile_arg \<Rightarrow> nat list \<Rightarrow> bool \<Rightarrow> nat io" where
  "writeXML eng ofile polylist withHeader =
     io_bind (getWritableObject ofile) (\<lambda>(f, cl).
     io_bind (if withHeader then fwrite f XmlHeader else io_return ()) (\<lambda>u.
     io_bind (for_each polylist (\<lambda>p.
       io_bind (Polygon_get p) (\<lambda>pv.
       fwrite f (XmlJoined (xml_lines eng pv))))) (\<lambda>u.
     io_bind (close_if cl f) (\<lambda>u.
     io_return f))))"

text \<open>
  A node of the document that \<^verbatim>\<open>parseString\<close> returns: an element with its tag name,
  attributes and child nodes, or a node of another type (text, comment). A document is
  the list of its top nodes.
\<close>

datatype node = Element string "(string \<times> string) list" "node list" | Other

text \<open>\<^verbatim>\<open>getAttribute(name)\<close>: the value, or the empty string for a missing attribute.\<close>

definition getAttribute :: "(string \<times> string) list \<Rightarrow> string \<Rightarrow> string" where
  "getAttribute attrs name = (case map_of attrs name of None \<Rightarrow> [] | Some v \<Rightarrow> v)"

text \<open>
  \<^verbatim>\<open>getElementsByTagName(name)\<close>: the descendant elements with that tag name, in document
  order, an element before the elements inside it.
\<close>

fun getElementsByTagName :: "string \<Rightarrow> node list \<Rightarrow> node list" where
  "getElementsByTagName name [] = []"
| "getElementsByTagName name (Other # ns) = getElementsByTagName name ns"
| "getElementsByTagName name (Element tg attrs ch # ns) =
     (if tg = name then [Element tg attrs ch] else []) @
     getElementsByTagName name ch @ getElementsByTagName name ns"

text \<open>
  The loops of \<^verbatim>\<open>readXML\<close>. \<^verbatim>\<open>float\<close> and \<^verbatim>\<open>int\<close> are the parameters \<open>pyfloat\<close> and
  \<open>pyint\<close>: the number a string stands for, if any (ValueError when none). The inner
  loop reads a point from every element child of a contour, whatever its tag name.
\<close>

fun read_points :: "(string \<Rightarrow> 'c option) \<Rightarrow> node list \<Rightarrow> error + 'c contour" where
  "read_points pyfloat [] = Inr []"
| "read_points pyfloat (Other # ns) = read_points pyfloat ns"
| "read_points pyfloat (Element tg attrs ch # ns) =
     (case pyfloat (getAttribute attrs ''x'') of None \<Rightarrow> Inl ValueError
      | Some x \<Rightarrow>
          (case pyfloat (getAttribute attrs ''y'') of None \<Rightarrow> Inl ValueError
           | Some y \<Rightarrow>
               (case read_points pyfloat ns of Inl e \<Rightarrow> Inl e
                | Inr polist \<Rightarrow> Inr ((x, y) # polist))))"

fun read_contours ::
  "(string \<Rightarrow> 'c option) \<Rightarrow> (string \<Rightarrow> int option) \<Rightarrow> node list \<Rightarrow> 'c polygon \<Rightarrow>
   error + 'c polygon" where
  "read_contours pyfloat pyint [] p = Inr p"
| "read_contours pyfloat pyint (Other # ns) p = read_contours pyfloat pyint ns p"
| "read_contours pyfloat pyint (Element tg attrs ch # ns) p =
     (if tg \<noteq> ''contour'' then Inl AssertionError
      else case read_points pyfloat ch of Inl e \<Rightarrow> Inl e
        | Inr polist \<Rightarrow>
            (case pyint (getAttribute attrs ''points'') of None \<Rightarrow> Inl ValueError
             | Some n \<Rightarrow>
                 if n \<noteq> int (length polist) then Inl StructuralMismatch
                 else (case pyint (getAttribute attrs ''isHole'') of None \<Rightarrow> Inl ValueError
                   | Some h \<Rightarrow>
                       read_contours pyfloat pyint ns (addContour p polist (h \<noteq> 0)))))"

fun read_polygon ::
  "(string \<Rightarrow> 'c option) \<Rightarrow> (string \<Rightarrow> int option) \<Rightarrow> node \<Rightarrow> error + 'c polygon" where
  "read_polygon pyfloat pyint (Element tg attrs ch) =
     (case read_contours pyfloat pyint ch [] of Inl e \<Rightarrow> Inl e
      | Inr p \<Rightarrow>
          (case pyint (getAttribute attrs ''contours'') of None \<Rightarrow> Inl ValueError
           | Some n \<Rightarrow> if n \<noteq> int (length p) then Inl StructuralMismatch else Inr p))"
| "read_polygon pyfloat pyint Other = Inr []" \<comment> \<open>never met: the list holds elements\<close>

fun read_polygons ::
  "(string \<Rightarrow> 'c option) \<Rightarrow> (string \<Rightarrow> int option) \<Rightarrow> node list \<Rightarrow>
   error + 'c polygon list" where
  "read_polygons pyfloat pyint [] = Inr []"
| "read_polygons pyfloat pyint (pn # pns) =
     (case read_polygon pyfloat pyint pn of Inl e \<Rightarrow> Inl e
      | Inr p \<Rightarrow>
          (case read_polygons pyfloat pyint pns of Inl e \<Rightarrow> Inl e
           | Inr plist \<Rightarrow> Inr (p # plist)))"

definition read_document ::
  "(string \<Rightarrow> 'c option) \<Rightarrow> (string \<Rightarrow> int option) \<Rightarrow> node list \<Rightarrow> error + 'c polygon list" where
  "read_document pyfloat pyint d =
     read_polygons pyfloat pyint (getElementsByTagName ''polygon'' d)"

text \<open>
  \<^verbatim>\<open>readXML(ifile)\<close>: the text is read and parsed (\<open>parseString\<close> gives the document, or
  nothing for a text that is no XML), then the stream is closed if the resolver says so,
  and only then are the polygons read from the document.
\<close>

definition readXML ::
  "(string \<Rightarrow> node list option) \<Rightarrow> (string \<Rightarrow> 'c option) \<Rightarrow> (string \<Rightarrow> int option) \<Rightarrow>
   ifile_arg \<Rightarrow> 'c polygon list io" where
  "readXML parseString pyfloat pyint ifile =
     io_bind (getReadableObject ifile) (\<lambda>(f, cl).
     io_bind (fread f) (\<lambda>txt.
     io_bind (io_lift (case parseString txt of None \<Rightarrow> Inl ParseError | Some d \<Rightarrow> Inr d)) (\<lambda>d.
     io_bind (close_if cl f) (\<lambda>u.
     io_lift (read_document pyfloat pyint d)))))"

subsection \<open>SVG\<close>

text \<open>
  The keyword arguments of \<^verbatim>\<open>writeSVG\<close>; \<open>None\<close> is the default of each but the last.
  A number or a sequence is tested for truth as Python does: \<^verbatim>\<open>None\<close>, 0 and the empty
  sequence are false.
\<close>

record svg_args =
  width :: "real option"
  height :: "real option"
  fill_color :: "style list option"
  fill_opacity :: "style list option"
  stroke_color :: "style list option"
  stroke_width :: "style list option"
  labels :: "string list option"
  labels_coords :: "real point list option"
  labels_centered :: bool

definition truthy :: "real option \<Rightarrow> bool" where
  "truthy v = (case v of None \<Rightarrow> False | Some x \<Rightarrow> x \<noteq> 0)"

definition truthy_list :: "'a list option \<Rightarrow> bool" where
  "truthy_list v = (case v of None \<Rightarrow> False | Some xs \<Rightarrow> xs \<noteq> [])"

definition the_list :: "'a list option \<Rightarrow> 'a list" where
  "the_list v = (case v of None \<Rightarrow> [] | Some xs \<Rightarrow> xs)"

text \<open>\<^verbatim>\<open>v or d\<close> for a sequence \<open>v\<close>.\<close>

definition or_default :: "'a list option \<Rightarrow> 'a list \<Rightarrow> 'a list" where
  "or_default v d = (if truthy_list v then the_list v else d)"

definition default_colors :: "style list" where
  "default_colors =
     [Rgb 27 158 119, Rgb 217 95 2, Rgb 117 112 179, Rgb 231 41 138,
      Rgb 102 166 30, Rgb 230 171 2, Rgb 166 118 29, Rgb 102 102 102]"

definition bb0 :: "bbox \<Rightarrow> real" where "bb0 bb = fst bb"

definition bb1 :: "bbox \<Rightarrow> real" where "bb1 bb = fst (snd bb)"

definition bb2 :: "bbox \<Rightarrow> real" where "bb2 bb = fst (snd (snd bb))"

definition bb3 :: "bbox \<Rightarrow> real" where "bb3 bb = snd (snd (snd bb))"

text \<open>
  \<^verbatim>\<open>pp = [Polygon(p) for p in polylist]\<close>, and the bounding boxes of the clones.
\<close>

fun clone_all :: "nat list \<Rightarrow> nat list io" where
  "clone_all [] = io_return []"
| "clone_all (p # ps) =
     io_bind (Polygon_copy p) (\<lambda>q.
     io_bind (clone_all ps) (\<lambda>qs.
     io_return (q # qs)))"

definition bounding_boxes :: "engine \<Rightarrow> nat list \<Rightarrow> bbox list io" where
  "bounding_boxes eng pp = io_gets (\<lambda>w. map (\<lambda>p. boundingBox eng (polys w ! p)) pp)"

text \<open>
  From \<^verbatim>\<open>bbs2 = list(zip(*bbs))\<close> to the test of the extent: \<open>minx\<close>, \<open>miny\<close>, \<open>xdim\<close>
  and \<open>ydim\<close>. Without a polygon \<^verbatim>\<open>bbs2\<close> is empty and \<^verbatim>\<open>bbs2[0]\<close> raises IndexError. The
  test \<^verbatim>\<open>not (xdim or ydim)\<close> holds when both extents are zero.
\<close>

definition extent :: "bbox list \<Rightarrow> error + (real \<times> real \<times> real \<times> real)" where
  "extent bbs =
     (case bbs of [] \<Rightarrow> Inl IndexError
      | bb # rest \<Rightarrow>
          (let minx = fold min (map bb0 rest) (bb0 bb);
               maxx = fold max (map bb1 rest) (bb1 bb);
               miny = fold min (map bb2 rest) (bb2 bb);
               maxy = fold max (map bb3 rest) (bb3 bb);
               xdim = maxx - minx;
               ydim = maxy - miny
           in if \<not> (xdim \<noteq> 0 \<or> ydim \<noteq> 0) then Inl DegenerateExtent
              else Inr (minx, miny, xdim, ydim)))"

text \<open>
  The three \<^verbatim>\<open>if\<close> statements that complete \<^verbatim>\<open>width\<close> and \<^verbatim>\<open>height\<close> from the aspect
  ratio \<open>a\<close>; the last divides by \<open>a\<close>.
\<close>

definition svg_size ::
  "real \<Rightarrow> real option \<Rightarrow> real option \<Rightarrow> error + (real option \<times> real option)" where
  "svg_size a w0 h0 =
     (let (w1, h1) =
            (if \<not> truthy w0 \<and> \<not> truthy h0
             then (if a < 1 then (Some 300, h0) else (w0, Some 300))
             else (w0, h0));
          h2 = (case w1 of None \<Rightarrow> h1
                | Some wv \<Rightarrow> if wv \<noteq> 0 \<and> \<not> truthy h1 then Some (wv * a) else h1)
      in case h2 of None \<Rightarrow> Inr (w1, h2)
         | Some hv \<Rightarrow>
             if hv \<noteq> 0 \<and> \<not> truthy w1
             then (case pdiv hv a of Inl e \<Rightarrow> Inl e | Inr wv \<Rightarrow> Inr (Some wv, h2))
             else Inr (w1, h2))"

text \<open>
  The checks of the labels: the labels as the loop sees them, \<^verbatim>\<open>str_dy\<close> and
  \<^verbatim>\<open>str_anchor\<close>.
\<close>

definition svg_labels ::
  "nat \<Rightarrow> string list option \<Rightarrow> real point list option \<Rightarrow> bool \<Rightarrow>
   error + (string list option \<times> string \<times> string)" where
  "svg_labels npoly labs coords centered =
     (if truthy_list labs
      then (let nlabels = length (the_list labs)
            in if nlabels = 0 then Inr (None, [], [])
               else if nlabels \<noteq> npoly then Inl LabelCountMismatch
               else if truthy_list coords \<and> length (the_list coords) \<noteq> nlabels
                 then Inl LabelCoordMismatch
               else if centered
                 then Inr (labs, ''dy=\"0.3em\" '', ''text-anchor:middle;text-align:center'')
               else Inr (labs, [], []))
      else Inr (labs, [], []))"

text \<open>
  The subpaths of a path: the first point \<^verbatim>\<open>c[0]\<close> of every contour (IndexError on a
  contour without points) and the points \<^verbatim>\<open>c[1:]\<close> behind it.
\<close>

fun subpaths :: "real contour list \<Rightarrow> error + (real point \<times> real point list) list" where
  "subpaths [] = Inr []"
| "subpaths ([] # cs) = Inl IndexError"
| "subpaths ((v # vs) # cs) =
     (case subpaths cs of Inl e \<Rightarrow> Inl e | Inr r \<Rightarrow> Inr ((v, vs) # r))"

text \<open>
  The body of the loop \<^verbatim>\<open>for i in range(npoly)\<close>. The loop state is the list \<open>s\<close> of
  lines and the four ring buffers. The clone is warped into its slot of the canvas, a
  style is drawn from each buffer, the path is built from the warped contours, and the
  label, if any, is anchored at the given coordinates or at \<^verbatim>\<open>p.center()\<close>.
\<close>

type_synonym svg_state =
  "svg_line list \<times> style RingBuffer \<times> style RingBuffer \<times> style RingBuffer \<times> style RingBuffer"

definition label_anchor ::
  "engine \<Rightarrow> real \<times> real \<times> real \<times> real \<Rightarrow> real \<times> real \<Rightarrow> real point list option \<Rightarrow>
   nat \<Rightarrow> nat \<Rightarrow> real point io" where
  "label_anchor eng ext cv coords p n =
     (case (ext, cv) of ((minx, miny, xdim, ydim), (wv, hv)) \<Rightarrow>
        if truthy_list coords
        then io_bind (io_lift (nth_py (the_list coords) n)) (\<lambda>lc.
             io_bind (io_lift (pdiv (wv * (fst lc - minx)) xdim)) (\<lambda>coord_x.
             io_bind (io_lift (pdiv (hv * (snd lc - miny)) ydim)) (\<lambda>coord_y.
             io_return (coord_x, coord_y))))
        else io_bind (Polygon_get p) (\<lambda>pv. io_return (center eng pv)))"

definition svg_polygon ::
  "engine \<Rightarrow> real \<times> real \<times> real \<times> real \<Rightarrow> real \<times> real \<Rightarrow> string list option \<Rightarrow>
   real point list option \<Rightarrow> string \<Rightarrow> string \<Rightarrow> nat list \<Rightarrow> bbox list \<Rightarrow>
   nat \<Rightarrow> svg_state \<Rightarrow> svg_state io" where
  "svg_polygon eng ext cv labs coords str_dy str_anchor pp bbs n st =
     (case (ext, cv, st) of
        ((minx, miny, xdim, ydim), (wv, hv), (s, fc, fo, sc, sw)) \<Rightarrow>
     io_bind (io_lift (nth_py pp n)) (\<lambda>p.
     io_bind (io_lift (nth_py bbs n)) (\<lambda>bb.
     io_bind (io_lift (pdiv (wv * (bb0 bb - minx)) xdim)) (\<lambda>x0.
     io_bind (io_lift (pdiv (wv * (bb1 bb - minx)) xdim)) (\<lambda>x1.
     io_bind (io_lift (pdiv (hv * (bb2 bb - miny)) ydim)) (\<lambda>y0.
     io_bind (io_lift (pdiv (hv * (bb3 bb - miny)) ydim)) (\<lambda>y1.
     io_bind (Polygon_update p (warpToBox eng x0 x1 y0 y1)) (\<lambda>u.
     io_bind (io_lift (RingBuffer_call fc)) (\<lambda>(c1, fc').
     io_bind (io_lift (RingBuffer_call fo)) (\<lambda>(c2, fo').
     io_bind (io_lift (RingBuffer_call sc)) (\<lambda>(c3, sc').
     io_bind (io_lift (RingBuffer_call sw)) (\<lambda>(c4, sw').
     io_bind (Polygon_get p) (\<lambda>pv.
     io_bind (io_lift (subpaths (map fst pv))) (\<lambda>subl.
     if truthy_list labs
     then io_bind (label_anchor eng ext cv coords p n) (\<lambda>(coord_x, coord_y).
          io_bind (io_lift (nth_py (the_list labs) n)) (\<lambda>lab.
          io_return
            (s @ [SvgGroupOpen, SvgPath c1 c2 c3 c4 subl,
                  SvgText coord_x coord_y str_dy str_anchor lab, SvgGroupClose],
             fc', fo', sc', sw')))
     else io_return (s @ [SvgPath c1 c2 c3 c4 subl], fc', fo', sc', sw')))))))))))))))"

text \<open>
  \<^verbatim>\<open>writeSVG\<close> in two parts: up to the bounding boxes of the flopped clones, and from
  the aggregate extent to the end (\<open>svg_render\<close>, which gets the stream, the clones and
  their bounding boxes).
\<close>

definition svg_render ::
  "engine \<Rightarrow> nat \<Rightarrow> bool \<Rightarrow> svg_args \<Rightarrow> nat list \<Rightarrow> bbox list \<Rightarrow> nat io" where
  "svg_render eng f cl args pp bbs =
     io_bind (io_lift (extent bbs)) (\<lambda>(minx, miny, xdim, ydim).
     io_bind (io_lift (pdiv ydim xdim)) (\<lambda>a.
     io_bind (io_lift (svg_size a (width args) (height args))) (\<lambda>(w2, h2).
     io_bind (io_lift (svg_labels (length pp) (labels args) (labels_coords args)
                (labels_centered args))) (\<lambda>(labs, str_dy, str_anchor).
     io_bind (io_lift (case (w2, h2) of (Some wv, Some hv) \<Rightarrow> Inr (wv, hv)
                | _ \<Rightarrow> Inl TypeError)) (\<lambda>(wv, hv).
     io_bind (fold_io [0..<length pp]
                (svg_polygon eng (minx, miny, xdim, ydim) (wv, hv) labs (labels_coords args)
                   str_dy str_anchor pp bbs)
                ([SvgXmlDecl, SvgDoctype, SvgOpen wv hv],
                 RingBuffer_init (or_default (fill_color args) default_colors),
                 RingBuffer_init (or_default (fill_opacity args) [Num 1]),
                 RingBuffer_init (or_default (stroke_color args) [Rgb 0 0 0]),
                 RingBuffer_init (or_default (stroke_width args) [Num 1]))) (\<lambda>(s, bufs).
     io_bind (fwrite f (SvgDocument (s @ [SvgEnd]))) (\<lambda>u.
     io_bind (close_if cl f) (\<lambda>u.
     io_return f))))))))"

definition writeSVG :: "engine \<Rightarrow> ofile_arg \<Rightarrow> nat list \<Rightarrow> svg_args \<Rightarrow> nat io" where
  "writeSVG eng ofile polylist args =
     io_bind (getWritableObject ofile) (\<lambda>(f, cl).
     io_bind (clone_all polylist) (\<lambda>pp.
     io_bind (for_each pp (\<lambda>p. Polygon_update p (flop eng 0))) (\<lambda>u.
     io_bind (bounding_boxes eng pp) (\<lambda>bbs.
     svg_render eng f cl args pp bbs))))"

subsection \<open>PDF\<close>

text \<open>
  \<^verbatim>\<open>writePDF\<close> draws on a reportlab canvas, which is kept as the list of the calls made
  on it. The page size \<open>A4\<close> of reportlab is a parameter. The lines from the clones to the
  aspect ratio are those of \<^verbatim>\<open>writeSVG\<close>, without the flop.
\<close>

datatype pdf_cmd =
    SetLineWidth real
  | SetFillColor style
  | DrawPath "real point" "real point list"
  | ShowPage
  | Save

fun draw_paths :: "real contour list \<Rightarrow> error + pdf_cmd list" where
  "draw_paths [] = Inr []"
| "draw_paths ([] # cs) = Inl IndexError"
| "draw_paths ((v # vs) # cs) =
     (case draw_paths cs of Inl e \<Rightarrow> Inl e | Inr r \<Rightarrow> Inr (DrawPath v vs # r))"

definition pdf_warp ::
  "engine \<Rightarrow> real \<times> real \<times> real \<times> real \<Rightarrow> real \<times> real \<Rightarrow> nat list \<Rightarrow> bbox list \<Rightarrow>
   nat \<Rightarrow> unit io" where
  "pdf_warp eng ext cv pp bbs n =
     (case (ext, cv) of ((minx, miny, xdim, ydim), (wv, hv)) \<Rightarrow>
     io_bind (io_lift (nth_py pp n)) (\<lambda>p.
     io_bind (io_lift (nth_py bbs n)) (\<lambda>bb.
     io_bind (io_lift (pdiv (wv * (bb0 bb - minx)) xdim)) (\<lambda>x0.
     io_bind (io_lift (pdiv (wv * (bb1 bb - minx)) xdim)) (\<lambda>x1.
     io_bind (io_lift (pdiv (hv * (bb2 bb - miny)) ydim)) (\<lambda>y0.
     io_bind (io_lift (pdiv (hv * (bb3 bb - miny)) ydim)) (\<lambda>y1.
     Polygon_update p (warpToBox eng x0 x1 y0 y1))))))))"

definition pdf_polygon ::
  "nat \<Rightarrow> pdf_cmd list \<times> style RingBuffer \<Rightarrow> (pdf_cmd list \<times> style RingBuffer) io" where
  "pdf_polygon poly st =
     (case st of (can, fc) \<Rightarrow>
     io_bind (Polygon_get poly) (\<lambda>pv.
     io_bind (io_lift (RingBuffer_call fc)) (\<lambda>(c, fc').
     io_bind (io_lift (draw_paths (map fst (filter (\<lambda>ch. \<not> snd ch) pv)))) (\<lambda>solids.
     io_bind (io_lift (draw_paths (map fst (filter snd pv)))) (\<lambda>holes.
     io_return
       (can @ [SetFillColor c] @ solids @ [SetFillColor (Named ''white'')] @ holes, fc'))))))"

definition writePDF ::
  "engine \<Rightarrow> real \<times> real \<Rightarrow> nat list \<Rightarrow> (real \<times> real) option \<Rightarrow> real \<Rightarrow> style list option \<Rightarrow>
   pdf_cmd list io" where
  "writePDF eng A4 polylist pagesize linewidth fill =
     io_bind (clone_all polylist) (\<lambda>pp.
     io_bind (bounding_boxes eng pp) (\<lambda>bbs.
     io_bind (io_lift (extent bbs)) (\<lambda>(minx, miny, xdim, ydim).
     io_bind (io_lift (pdiv ydim xdim)) (\<lambda>a.
     io_bind (io_return (case pagesize of None \<Rightarrow> A4 | Some ps \<Rightarrow> ps)) (\<lambda>(w0, h0).
     io_bind (io_lift (pdiv h0 w0)) (\<lambda>r.
     io_bind (io_lift (if a > r
                then (case pdiv h0 a of Inl e \<Rightarrow> Inl e | Inr wv \<Rightarrow> Inr (wv, h0))
                else Inr (w0, w0 * a))) (\<lambda>(wv, hv).
     io_bind (for_each [0..<length pp]
                (pdf_warp eng (minx, miny, xdim, ydim) (wv, hv) pp bbs)) (\<lambda>u.
     io_bind (fold_io pp pdf_polygon
                ([SetLineWidth linewidth],
                 RingBuffer_init (or_default fill
                   [Named ''red'', Named ''green'', Named ''blue'', Named ''yellow'']))) (\<lambda>(can, fc).
     io_return (can @ [ShowPage, Save]))))))))))"

section \<open>Documents: what the claims speak of\<close>

text \<open>
  The element children of a node, its tag name and attributes, and the conditions on a
  document that the claims about \<^verbatim>\<open>readXML\<close> name: the declared counts agree with the
  content (\<open>counts_ok\<close>), and everything else that \<^verbatim>\<open>readXML\<close> asks of a document holds
  (\<open>readable\<close>: the element children of a polygon are contours, and every attribute that
  is converted stands for a number).
\<close>

fun is_element :: "node \<Rightarrow> bool" where
  "is_element (Element tg attrs ch) = True"
| "is_element Other = False"

fun element_children :: "node \<Rightarrow> node list" where
  "element_children (Element tg attrs ch) = filter is_element ch"
| "element_children Other = []"

fun tagName :: "node \<Rightarrow> string" where
  "tagName (Element tg attrs ch) = tg"
| "tagName Other = []"

fun attribute :: "node \<Rightarrow> string \<Rightarrow> string" where
  "attribute (Element tg attrs ch) name = getAttribute attrs name"
| "attribute Other name = []"

definition points_ok :: "(string \<Rightarrow> int option) \<Rightarrow> node \<Rightarrow> bool" where
  "points_ok pyint sn =
     (pyint (attribute sn ''points'') = Some (int (length (element_children sn))))"

definition polygon_counts_ok :: "(string \<Rightarrow> int option) \<Rightarrow> node \<Rightarrow> bool" where
  "polygon_counts_ok pyint pn =
     (list_all (points_ok pyint) (element_children pn) \<and>
      pyint (attribute pn ''contours'') = Some (int (length (element_children pn))))"

definition counts_ok :: "(string \<Rightarrow> int option) \<Rightarrow> node list \<Rightarrow> bool" where
  "counts_ok pyint d = list_all (polygon_counts_ok pyint) (getElementsByTagName ''polygon'' d)"

definition point_readable :: "(string \<Rightarrow> 'c option) \<Rightarrow> node \<Rightarrow> bool" where
  "point_readable pyfloat pon =
     (pyfloat (attribute pon ''x'') \<noteq> None \<and> pyfloat (attribute pon ''y'') \<noteq> None)"

definition contour_readable ::
  "(string \<Rightarrow> 'c option) \<Rightarrow> (string \<Rightarrow> int option) \<Rightarrow> node \<Rightarrow> bool" where
  "contour_readable pyfloat pyint sn =
     (tagName sn = ''contour'' \<and>
      list_all (point_readable pyfloat) (element_children sn) \<and>
      pyint (attribute sn ''points'') \<noteq> None \<and>
      pyint (attribute sn ''isHole'') \<noteq> None)"

definition polygon_readable ::
  "(string \<Rightarrow> 'c option) \<Rightarrow> (string \<Rightarrow> int option) \<Rightarrow> node \<Rightarrow> bool" where
  "polygon_readable pyfloat pyint pn =
     (list_all (contour_readable pyfloat pyint) (element_children pn) \<and>
      pyint (attribute pn ''contours'') \<noteq> None)"

definition readable ::
  "(string \<Rightarrow> 'c option) \<Rightarrow> (string \<Rightarrow> int option) \<Rightarrow> node list \<Rightarrow> bool" where
  "readable pyfloat pyint d =
     list_all (polygon_readable pyfloat pyint) (getElementsByTagName ''polygon'' d)"

section \<open>Frames and extents: what the claims speak of\<close>

text \<open>
  An operation maintains a property of the world when the property holds after it,
  however it ends, whenever it held before. The two properties used: the streams are
  closed or open as \<open>cs\<close> says, and the Polygon objects \<open>ps\<close> are the first objects of
  the store, unchanged.
\<close>

definition maintains :: "(world \<Rightarrow> bool) \<Rightarrow> 'a io \<Rightarrow> bool" where
  "maintains P m = (\<forall>w. P w \<longrightarrow> P (snd (m w)))"

definition closed_are :: "bool list \<Rightarrow> world \<Rightarrow> bool" where
  "closed_are cs w = (map s_closed (streams w) = cs)"

definition polys_keep :: "real polygon list \<Rightarrow> world \<Rightarrow> bool" where
  "polys_keep ps w = (take (length ps) (polys w) = ps)"

text \<open>
  \<open>closes_at_end cl f cs m\<close>: started where the streams are as \<open>cs\<close> says, the operation
  \<open>m\<close> leaves them so, but for the stream \<open>f\<close>, which is closed when \<open>cl\<close> holds and \<open>m\<close>
  returns without an error.
\<close>

definition closes_at_end :: "bool \<Rightarrow> nat \<Rightarrow> bool list \<Rightarrow> 'a io \<Rightarrow> bool" where
  "closes_at_end cl f cs m =
     (\<forall>w. closed_are cs w \<longrightarrow>
        closed_are (if cl \<and> \<not> isl (fst (m w)) then cs[f := True] else cs) (snd (m w)))"

text \<open>
  The aggregate extents of a list of bounding boxes, and the bounding boxes that
  \<^verbatim>\<open>writeSVG\<close> aggregates: those of the flopped clones of the polygons.
\<close>

definition x_extent :: "bbox list \<Rightarrow> real" where
  "x_extent bbs = Max (set (map bb1 bbs)) - Min (set (map bb0 bbs))"

definition y_extent :: "bbox list \<Rightarrow> real" where
  "y_extent bbs = Max (set (map bb3 bbs)) - Min (set (map bb2 bbs))"

definition flopped_boxes :: "engine \<Rightarrow> nat list \<Rightarrow> world \<Rightarrow> bbox list" where
  "flopped_boxes eng polylist w = map (\<lambda>p. boundingBox eng (flop eng 0 (polys w ! p))) polylist"

text \<open>\<open>never_raises e m\<close>: whatever the world, the operation \<open>m\<close> does not end with \<open>e\<close>.\<close>

definition never_raises :: "error \<Rightarrow> 'a io \<Rightarrow> bool" where
  "never_raises e m = (\<forall>w. fst (m w) \<noteq> Inl e)"

section \<open>Example values\<close>

text \<open>
  Polygons with doubles as bit patterns: \<open>4607182418800017408\<close> is 1.0 and
  \<open>4598175219545276416\<close> is 0.25. \<open>triangle\<close> is a solid contour of three
  points, \<open>triangle_with_hole\<close> has a hole contour behind it.
\<close>

definition triangle :: "double polygon" where
  "triangle = [([(0, 0), (4607182418800017408, 0), (0, 4607182418800017408)], False)]"

definition triangle_with_hole :: "double polygon" where
  "triangle_with_hole =
     [([(0, 0), (4607182418800017408, 0), (0, 4607182418800017408)], False),
      ([(0, 0), (4598175219545276416, 0), (0, 4598175219545276416)], True)]"

subsection \<open>An engine, worlds and documents\<close>

text \<open>
  Modelled from the spec: the methods of the geometry engine \<^verbatim>\<open>Polygon.cPolygon\<close>, which
  is not in the sources, for the examples. The bounding box is computed from the points
  (zeros without a point); the flop mirrors the y coordinates at the given value; the
  warp maps the polygon's own bounding box onto the given rectangle, each axis by
  itself; the centre is the mean of the vertices; a contour is its own triangle strip;
  areas are computed from the vertices.
\<close>

definition sample_boundingBox :: "real polygon \<Rightarrow> bbox" where
  "sample_boundingBox p =
     (case concat (map fst p) of [] \<Rightarrow> (0, 0, 0, 0)
      | v # vs \<Rightarrow>
          (fold min (map fst vs) (fst v), fold max (map fst vs) (fst v),
           fold min (map snd vs) (snd v), fold max (map snd vs) (snd v)))"

definition sample_flop :: "real \<Rightarrow> real polygon \<Rightarrow> real polygon" where
  "sample_flop y0 p = map (\<lambda>(c, h). (map (\<lambda>(x, y). (x, 2 * y0 - y)) c, h)) p"

definition sample_warpToBox ::
  "real \<Rightarrow> real \<Rightarrow> real \<Rightarrow> real \<Rightarrow> real polygon \<Rightarrow> real polygon" where
  "sample_warpToBox x0 x1 y0 y1 p =
     (case sample_boundingBox p of (a, b, c, d) \<Rightarrow>
        map (\<lambda>(cn, h).
          (map (\<lambda>(x, y).
             (x0 + (x - a) * (if b = a then 1 else (x1 - x0) / (b - a)),
              y0 + (y - c) * (if d = c then 1 else (y1 - y0) / (d - c)))) cn, h)) p)"

definition sample_center :: "real polygon \<Rightarrow> real point" where
  "sample_center p =
     (let pts = concat (map fst p)
      in (sum_list (map fst pts) / real (length pts), sum_list (map snd pts) / real (length pts)))"

definition contour_area :: "real contour \<Rightarrow> real" where
  "contour_area c =
     \<bar>sum_list (map (\<lambda>((x1, y1), (x2, y2)). x1 * y2 - x2 * y1) (zip c (rotate1 c)))\<bar> / 2"

definition sample_engine :: engine where
  "sample_engine =
     \<lparr>flop = sample_flop,
      boundingBox = sample_boundingBox,
      warpToBox = sample_warpToBox,
      center = sample_center,
      triStrip = map fst,
      area = (\<lambda>p. sum_list (map (\<lambda>(c, h). if h then - contour_area c else contour_area c) p)),
      area_i = (\<lambda>p n. contour_area (fst (p ! n))),
      boundingBox_i = (\<lambda>p n. sample_boundingBox [p ! n])\<rparr>"

text \<open>
  Worlds without streams: one holds two unit squares a unit apart, one a contour whose
  points are all equal, one a contour on a vertical line.
\<close>

definition two_squares :: world where
  "two_squares =
     \<lparr>polys = [[([(0, 0), (1, 0), (1, 1), (0, 1)], False)],
               [([(2, 2), (3, 2), (3, 3), (2, 3)], False)]],
      streams = [], files = [], unwritable = []\<rparr>"

definition one_point :: world where
  "one_point =
     \<lparr>polys = [[([(1, 1), (1, 1), (1, 1)], False)]],
      streams = [], files = [], unwritable = []\<rparr>"

definition vertical_line :: world where
  "vertical_line =
     \<lparr>polys = [[([(0, 0), (0, 1), (0, 2)], False)]],
      streams = [], files = [], unwritable = []\<rparr>"

definition no_args :: svg_args where
  "no_args =
     \<lparr>width = None, height = None, fill_color = None, fill_opacity = None,
      stroke_color = None, stroke_width = None, labels = None, labels_coords = None,
      labels_centered = False\<rparr>"

text \<open>
  A world with a stream that its owner has left open.
\<close>

definition open_stream :: world where
  "open_stream =
     \<lparr>polys = [[([(0, 0), (1, 0), (0, 1)], False)]],
      streams = [\<lparr>s_closed = False, s_text = [], s_written = []\<rparr>],
      files = [], unwritable = []\<rparr>"

text \<open>
  Conversions for the examples: a string of decimal digits stands for its number, any
  other string for none. Three documents, each a polygon with one contour: three points
  under \<^verbatim>\<open>points="3"\<close>; two points under \<^verbatim>\<open>points="3"\<close>; and three points with an
  element \<^verbatim>\<open><foo/>\<close> before the contour. \<open>sample_parse\<close> gives the document of the file
  texts \<open>triangle\<close>, \<open>two_points\<close> and \<open>foreign\<close>, as a parser would from their XML.
\<close>

definition sample_nat :: "string \<Rightarrow> nat option" where
  "sample_nat str =
     (if str \<noteq> [] \<and> list_all (\<lambda>c. 48 \<le> (of_char c :: nat) \<and> (of_char c :: nat) \<le> 57) str
      then Some (foldl (\<lambda>a c. 10 * a + (of_char c - 48)) 0 str)
      else None)"

definition sample_int :: "string \<Rightarrow> int option" where
  "sample_int str = map_option int (sample_nat str)"

definition sample_float :: "string \<Rightarrow> real option" where
  "sample_float str = map_option real (sample_nat str)"

definition p_elem :: "string \<Rightarrow> string \<Rightarrow> node" where
  "p_elem x y = Element ''p'' [(''x'', x), (''y'', y)] []"

definition doc_triangle :: "node list" where
  "doc_triangle =
     [Element ''polygon'' [(''contours'', ''1'')]
        [Other,
         Element ''contour'' [(''points'', ''3''), (''isHole'', ''0'')]
           [Other, p_elem ''0'' ''0'', Other, p_elem ''1'' ''0'', Other, p_elem ''0'' ''1'',
            Other],
         Other]]"

definition doc_two_points :: "node list" where
  "doc_two_points =
     [Element ''polygon'' [(''contours'', ''1'')]
        [Other,
         Element ''contour'' [(''points'', ''3''), (''isHole'', ''0'')]
           [Other, p_elem ''0'' ''0'', Other, p_elem ''1'' ''0'', Other],
         Other]]"

definition doc_foreign :: "node list" where
  "doc_foreign =
     [Element ''polygon'' [(''contours'', ''1'')]
        [Other,
         Element ''foo'' [] [],
         Element ''contour'' [(''points'', ''3''), (''isHole'', ''0'')]
           [Other, p_elem ''0'' ''0'', Other, p_elem ''1'' ''0'', Other, p_elem ''0'' ''1'',
            Other],
         Other]]"

definition sample_parse :: "string \<Rightarrow> node list option" where
  "sample_parse txt =
     (if txt = ''triangle'' then Some doc_triangle
      else if txt = ''two_points'' then Some doc_two_points
      else if txt = ''foreign'' then Some doc_foreign
      else None)"

definition xml_files :: world where
  "xml_files =
     \<lparr>polys = [], streams = [],
      files = [(''triangle.xml'', ''triangle''), (''two_points.xml'', ''two_points''),
               (''foreign.xml'', ''foreign'')],
      unwritable = []\<rparr>"

section \<open>The struct formats: lemmas\<close>

lemma length_be_bytes: "length (be_bytes k v) = k"
  by (induction k arbitrary: v) simp_all

lemma be_int_snoc: "be_int (bs @ [b]) = be_int bs * 256 + uint b"
  by (simp add: be_int_def)

lemma uint_byte_mod: "uint (word_of_int (v mod 256) :: byte) = v mod 256"
  by (simp add: uint_word_of_int)

lemma be_int_be_bytes: "be_int (be_bytes k v) = v mod 256 ^ k"
proof (induction k arbitrary: v)
  case 0
  show ?case by (simp add: be_int_def)
next
  case (Suc k)
  have "be_int (be_bytes (Suc k) v) = (v div 256) mod 256 ^ k * 256 + v mod 256"
    by (simp add: be_int_snoc Suc.IH uint_byte_mod)
  also have "\<dots> = v mod 256 ^ Suc k"
    using zmod_zmult2_eq [of "256 ^ k" v 256] by simp
  finally show ?case .
qed

lemma unpack_raw_append:
  "length h = n \<Longrightarrow> unpack_raw n (h @ r) = Inr (h, r)"
  by (simp add: unpack_raw_def)

lemma unpack_I_pack:
  assumes "0 \<le> v" "v < 2 ^ 32"
  shows "unpack_I (be_bytes 4 v @ r) = Inr (v, r)"
  using assms by (simp add: unpack_I_def unpack_raw_append length_be_bytes be_int_be_bytes)

lemma unpack_l_pack:
  assumes "- (2 ^ 31) \<le> v" "v < 2 ^ 31"
  shows "unpack_l (be_bytes 4 v @ r) = Inr (v, r)"
proof -
  have m: "v mod 256 ^ 4 = (if 0 \<le> v then v else v + 2 ^ 32)"
  proof (cases "0 \<le> v")
    case True
    then show ?thesis using assms by simp
  next
    case False
    have "v mod 256 ^ 4 = (v + 2 ^ 32) mod 256 ^ 4"
      by simp
    also have "\<dots> = v + 2 ^ 32"
      using assms False by (subst mod_pos_pos_trivial) simp_all
    finally show ?thesis using False by simp
  qed
  show ?thesis
    using assms m by (simp add: unpack_l_def unpack_raw_append length_be_bytes be_int_be_bytes)
qed

lemma word_of_uint_mod: "(word_of_int (uint w mod 256 ^ 8) :: double) = w"
proof -
  have "uint w < 2 ^ 64"
    using uint_bounded [of w] by simp
  then have "uint w mod 256 ^ 8 = uint w"
    by simp
  then show ?thesis by simp
qed

lemma doubles_of_pack:
  "doubles_of (length vs) (concat (map (\<lambda>w. be_bytes 8 (uint w)) vs) @ r) = vs"
proof (induction vs)
  case Nil
  show ?case by simp
next
  case (Cons w vs)
  then show ?case
    using word_of_uint_mod [of w] by (simp add: length_be_bytes be_int_be_bytes)
qed

lemma length_pack_doubles:
  "length (concat (map (\<lambda>w. be_bytes 8 (uint w)) vs)) = 8 * length vs"
  by (induction vs) (simp_all add: length_be_bytes)

lemma length_flatten: "length (flatten c) = 2 * length c"
  by (induction c) (auto simp: flatten_def)

lemma couples_flatten: "couples (flatten c) = Inr c"
  by (induction c) (auto simp: flatten_def)

lemma unpack_d_pack:
  "unpack_d (length vs) (concat (map (\<lambda>w. be_bytes 8 (uint w)) vs) @ r) = Inr (vs, r)"
  using doubles_of_pack [of vs "[]"]
  by (simp add: unpack_d_def unpack_raw_append length_pack_doubles)

lemma decode_contours_step:
  assumes "unpack_l b = Inr (x, b1)"
    and "unpack_d (nat (if x < 0 then - 2 * x else 2 * x)) b1 = Inr (flat, b2)"
    and "couples flat = Inr c"
  shows "decode_contours (Suc k) b p = decode_contours k b2 (addContour p c (x < 0))"
  using assms by (simp add: Let_def)

lemma decode_encode_contours:
  "encode_contours cs = Inr l \<Longrightarrow>
   decode_contours (length cs) (concat l @ t) acc = Inr (acc @ solid_if_empty cs)"
proof (induction cs arbitrary: l acc)
  case Nil
  then show ?case by (simp add: solid_if_empty_def)
next
  case (Cons ch cs)
  obtain c h where ch: "ch = (c, h)" by (cases ch)
  let ?v = "int (length c) * (if h then - 1 else 1)"
  from Cons.prems ch obtain l' where
    rng: "- (2 ^ 31) \<le> ?v" "?v < 2 ^ 31" and
    l: "l = be_bytes 4 ?v # concat (map (\<lambda>w. be_bytes 8 (uint w)) (flatten c)) # l'" and
    rest: "encode_contours cs = Inr l'"
    by (auto simp: pack_l_def pack_d_def length_flatten split: sum.splits if_splits)
  have hd: "unpack_l (concat l @ t) =
      Inr (?v, concat (map (\<lambda>w. be_bytes 8 (uint w)) (flatten c)) @ concat l' @ t)"
    using unpack_l_pack [OF rng] by (simp add: l)
  have cnt: "nat (if ?v < 0 then - 2 * ?v else 2 * ?v) = length (flatten c)"
    by (simp add: length_flatten nat_mult_distrib)
  have body: "unpack_d (nat (if ?v < 0 then - 2 * ?v else 2 * ?v))
      (concat (map (\<lambda>w. be_bytes 8 (uint w)) (flatten c)) @ concat l' @ t) =
      Inr (flatten c, concat l' @ t)"
    unfolding cnt by (rule unpack_d_pack)
  have flag: "(?v < 0) = (h \<and> c \<noteq> [])"
    by auto
  have "decode_contours (Suc (length cs)) (concat l @ t) acc =
      decode_contours (length cs) (concat l' @ t) (addContour acc c (?v < 0))"
    by (rule decode_contours_step [OF hd body couples_flatten])
  then have "decode_contours (length (ch # cs)) (concat l @ t) acc =
      decode_contours (length cs) (concat l' @ t) (addContour acc c (h \<and> c \<noteq> []))"
    unfolding flag by simp
  also have "\<dots> = Inr (addContour acc c (h \<and> c \<noteq> []) @ solid_if_empty cs)"
    by (rule Cons.IH [OF rest])
  finally show ?case
    by (simp add: ch addContour_def solid_if_empty_def)
qed

lemma encode_contours_total:
  "\<forall>(c, h) \<in> set p. length c < 2 ^ 31 \<Longrightarrow> \<exists>l. encode_contours p = Inr l"
proof (induction p)
  case Nil
  show ?case by simp
next
  case (Cons ch p)
  obtain c h where ch: "ch = (c, h)" by (cases ch)
  from Cons.prems ch have len: "length c < 2 ^ 31" by simp
  from Cons obtain l where l: "encode_contours p = Inr l" by auto
  have "int (length c) < 2 ^ 31"
    using len by (metis of_nat_less_iff of_nat_numeral of_nat_power)
  then have "\<exists>a. pack_l (int (length c) * (if h then - 1 else 1)) = Inr a"
    by (simp add: pack_l_def)
  then show ?case
    by (auto simp: ch l pack_d_def length_flatten)
qed

lemma encodeBinary_total:
  assumes "length p < 2 ^ 32" and "\<forall>(c, h) \<in> set p. length c < 2 ^ 31"
  shows "\<exists>bs. encodeBinary p = Inr bs"
proof -
  from encode_contours_total [OF assms(2)] obtain l where "encode_contours p = Inr l" ..
  moreover have "int (length p) < 2 ^ 32"
    using assms(1) by (metis of_nat_less_iff of_nat_numeral of_nat_power)
  ultimately show ?thesis
    by (simp add: encodeBinary_def pack_I_def)
qed

lemma decode_encode_append:
  assumes "encodeBinary p = Inr bs"
  shows "decodeBinary (bs @ t) = Inr (solid_if_empty p)"
proof -
  from assms obtain l where
    rng: "0 \<le> int (length p)" "int (length p) < 2 ^ 32" and
    l: "encode_contours p = Inr l" and
    bs: "bs = be_bytes 4 (int (length p)) @ concat l"
    by (auto simp: encodeBinary_def pack_I_def split: sum.splits if_splits)
  have "unpack_I (bs @ t) = Inr (int (length p), concat l @ t)"
    using unpack_I_pack [OF rng] by (simp add: bs)
  then have "decodeBinary (bs @ t) = decode_contours (length p) (concat l @ t) []"
    by (simp add: decodeBinary_def)
  then show ?thesis
    using decode_encode_contours [OF l, of t "[]"] by simp
qed

lemma solid_if_empty_id:
  "\<forall>(c, h) \<in> set p. c \<noteq> [] \<Longrightarrow> solid_if_empty p = p"
  by (induction p) (auto simp: solid_if_empty_def)

lemma unpack_raw_take_short:
  "n < s \<Longrightarrow> unpack_raw s (take n b) = Inl TruncatedInput"
  by (simp add: unpack_raw_def)

lemma unpack_raw_take_long:
  "length h = s \<Longrightarrow> s \<le> n \<Longrightarrow> unpack_raw s (take n (h @ r)) = Inr (h, take (n - s) r)"
  by (simp add: unpack_raw_def)

lemma unpack_l_take_long:
  assumes "- (2 ^ 31) \<le> v" "v < 2 ^ 31" "4 \<le> n"
  shows "unpack_l (take n (be_bytes 4 v @ r)) = Inr (v, take (n - 4) r)"
  using unpack_l_pack [OF assms(1,2), of "take (n - 4) r"] assms(3)
  by (simp add: length_be_bytes)

lemma decode_contours_truncated:
  "encode_contours cs = Inr l \<Longrightarrow> n < length (concat l) \<Longrightarrow>
   decode_contours (length cs) (take n (concat l)) acc = Inl TruncatedInput"
proof (induction cs arbitrary: l n acc)
  case Nil
  then show ?case by simp
next
  case (Cons ch cs)
  obtain c h where ch: "ch = (c, h)" by (cases ch)
  let ?v = "int (length c) * (if h then - 1 else 1)"
  let ?d = "concat (map (\<lambda>w. be_bytes 8 (uint w)) (flatten c))"
  from Cons.prems(1) ch obtain l' where
    rng: "- (2 ^ 31) \<le> ?v" "?v < 2 ^ 31" and
    l: "l = be_bytes 4 ?v # ?d # l'" and
    rest: "encode_contours cs = Inr l'"
    by (auto simp: pack_l_def pack_d_def length_flatten split: sum.splits if_splits)
  have cnt: "nat (if ?v < 0 then - 2 * ?v else 2 * ?v) = length (flatten c)"
    by (simp add: length_flatten nat_mult_distrib)
  have lend: "length ?d = 8 * length (flatten c)"
    by (rule length_pack_doubles)
  show ?case
  proof (cases "n < 4")
    case True
    then have "unpack_l (take n (concat l)) = Inl TruncatedInput"
      by (simp add: unpack_l_def unpack_raw_take_short)
    then show ?thesis by simp
  next
    case False
    then have n4: "4 \<le> n" by simp
    have cl: "concat l = be_bytes 4 ?v @ (?d @ concat l')"
      by (simp add: l)
    have hd: "unpack_l (take n (concat l)) = Inr (?v, take (n - 4) (?d @ concat l'))"
      unfolding cl by (rule unpack_l_take_long [OF rng n4])
    show ?thesis
    proof (cases "n - 4 < length ?d")
      case True
      then have "n - 4 < 8 * length (flatten c)"
        by (simp only: lend)
      then have "unpack_raw (8 * length (flatten c)) (take (n - 4) (?d @ concat l')) =
          Inl TruncatedInput"
        by (rule unpack_raw_take_short)
      then have "unpack_d (nat (if ?v < 0 then - 2 * ?v else 2 * ?v))
          (take (n - 4) (?d @ concat l')) = Inl TruncatedInput"
        unfolding cnt by (simp only: unpack_d_def sum.case)
      with hd show ?thesis by (simp add: Let_def)
    next
      case False
      then have long: "8 * length (flatten c) \<le> n - 4"
        by (simp only: lend not_less)
      have "unpack_raw (8 * length (flatten c)) (take (n - 4) (?d @ concat l')) =
          Inr (?d, take (n - 4 - 8 * length (flatten c)) (concat l'))"
        by (rule unpack_raw_take_long [OF lend long])
      moreover have "doubles_of (length (flatten c)) ?d = flatten c"
        using doubles_of_pack [of "flatten c" "[]"] by simp
      ultimately have body: "unpack_d (nat (if ?v < 0 then - 2 * ?v else 2 * ?v))
          (take (n - 4) (?d @ concat l')) =
          Inr (flatten c, take (n - 4 - 8 * length (flatten c)) (concat l'))"
        unfolding cnt by (simp only: unpack_d_def sum.case prod.case)
      have "length (concat l) = 4 + 8 * length (flatten c) + length (concat l')"
        by (simp add: l length_be_bytes lend)
      then have less: "n - 4 - 8 * length (flatten c) < length (concat l')"
        using Cons.prems(2) n4 long by simp
      have "decode_contours (Suc (length cs)) (take n (concat l)) acc =
          decode_contours (length cs) (take (n - 4 - 8 * length (flatten c)) (concat l'))
            (addContour acc c (?v < 0))"
        by (rule decode_contours_step [OF hd body couples_flatten])
      also have "\<dots> = Inl TruncatedInput"
        by (rule Cons.IH [OF rest less])
      finally show ?thesis by simp
    qed
  qed
qed

lemma length_encode_contours:
  "encode_contours p = Inr l \<Longrightarrow>
   length (concat l) = sum_list (map (\<lambda>(c, h). 4 + 16 * length c) p)"
proof (induction p arbitrary: l)
  case Nil
  then show ?case by simp
next
  case (Cons ch p)
  obtain c h where ch: "ch = (c, h)" by (cases ch)
  from Cons.prems ch obtain l' where
    l: "l = be_bytes 4 (int (length c) * (if h then - 1 else 1)) #
            concat (map (\<lambda>w. be_bytes 8 (uint w)) (flatten c)) # l'" and
    rest: "encode_contours p = Inr l'"
    by (auto simp: pack_l_def pack_d_def length_flatten split: sum.splits if_splits)
  show ?case
    using Cons.IH [OF rest]
    by (simp add: l ch length_be_bytes length_pack_doubles length_flatten)
qed

lemma length_encodeBinary:
  assumes "encodeBinary p = Inr bs"
  shows "length bs = 4 + sum_list (map (\<lambda>(c, h). 4 + 16 * length c) p)"
proof -
  from assms obtain l where
    l: "encode_contours p = Inr l" and
    bs: "bs = be_bytes 4 (int (length p)) @ concat l"
    by (auto simp: encodeBinary_def pack_I_def split: sum.splits if_splits)
  show ?thesis
    using length_encode_contours [OF l] by (simp add: bs length_be_bytes)
qed

section \<open>The binary codec: claims\<close>

text \<open>
  Claim C1. For every polygon, \<^verbatim>\<open>decodeBinary(encodeBinary(p))\<close> is a polygon with the
  same contours in the same order: the same points, bit for bit, and the same hole
  flags. The polygons are those of the data model (every contour has a point) whose
  counts fit the fields of the format: fewer than \<open>2^32\<close> contours, fewer than \<open>2^31\<close>
  points in a contour. For these the encoder returns bytes, and the decoder returns the
  polygon from them. The polygon without contours is one of them.
\<close>

theorem decode_encode_roundtrip: 
  assumes "length p < 2 ^ 32"
    and "\<forall>(c, h) \<in> set p. c \<noteq> [] \<and> length c < 2 ^ 31"
  shows "\<exists>bs. encodeBinary p = Inr bs \<and> decodeBinary bs = Inr p"
proof -
  have "\<forall>(c, h) \<in> set p. length c < 2 ^ 31" and ne: "\<forall>(c, h) \<in> set p. c \<noteq> []"
    using assms(2) by auto
  with assms(1) obtain bs where bs: "encodeBinary p = Inr bs"
    using encodeBinary_total by blast
  have "decodeBinary bs = Inr p"
    using decode_encode_append [OF bs, of "[]"] solid_if_empty_id [OF ne] by simp
  with bs show ?thesis by blast
qed

theorem decode_encode_roundtrip_witness:
  "\<exists>bs. encodeBinary triangle_with_hole = Inr bs \<and>
        decodeBinary bs = Inr triangle_with_hole"
  using decode_encode_roundtrip [of triangle_with_hole]
  by (simp add: triangle_with_hole_def)

text \<open>
  Claim C3. Decoding a strict prefix of an encoding fails with TruncatedInput: whatever
  the polygon and wherever the bytes are cut, \<^verbatim>\<open>unpack\<close> meets a slice shorter than its
  format. In particular the encoding of a solid contour of three points, cut by one
  byte.
\<close>

theorem decode_truncated:
  assumes "encodeBinary p = Inr bs" and "n < length bs"
  shows "decodeBinary (take n bs) = Inl TruncatedInput"
proof -
  from assms(1) obtain l where
    rng: "0 \<le> int (length p)" "int (length p) < 2 ^ 32" and
    l: "encode_contours p = Inr l" and
    bs: "bs = be_bytes 4 (int (length p)) @ concat l"
    by (auto simp: encodeBinary_def pack_I_def split: sum.splits if_splits)
  show ?thesis
  proof (cases "n < 4")
    case True
    then show ?thesis
      by (simp add: decodeBinary_def unpack_I_def unpack_raw_take_short)
  next
    case False
    then have n4: "4 \<le> n" by simp
    have "take n bs = be_bytes 4 (int (length p)) @ take (n - 4) (concat l)"
      using n4 by (simp add: bs length_be_bytes)
    then have "unpack_I (take n bs) = Inr (int (length p), take (n - 4) (concat l))"
      using unpack_I_pack [OF rng, of "take (n - 4) (concat l)"] by simp
    then have "decodeBinary (take n bs) =
        decode_contours (length p) (take (n - 4) (concat l)) []"
      by (simp add: decodeBinary_def)
    moreover have "n - 4 < length (concat l)"
      using assms(2) n4 by (simp add: bs length_be_bytes)
    ultimately show ?thesis
      using decode_contours_truncated [OF l] by simp
  qed
qed

theorem decode_truncated_witness:
  "\<exists>bs. encodeBinary triangle = Inr bs \<and> length bs = 56 \<and>
        decodeBinary (take 55 bs) = Inl TruncatedInput"
proof -
  obtain bs where bs: "encodeBinary triangle = Inr bs"
    using encodeBinary_total [of triangle] by (auto simp: triangle_def)
  have len: "length bs = 56"
    using length_encodeBinary [OF bs] by (simp add: triangle_def)
  then have "55 < length bs" by simp
  with bs have "decodeBinary (take 55 bs) = Inl TruncatedInput"
    by (rule decode_truncated)
  with bs len show ?thesis by blast
qed

text \<open>
  Claim C9. The decoder reads the records that the leading count announces and never
  looks at what follows: bytes appended to an encoding change nothing, the decoder
  returns the same polygon and raises no error.
\<close>

theorem decode_ignores_trailing:
  assumes "length p < 2 ^ 32" and "\<forall>(c, h) \<in> set p. length c < 2 ^ 31"
  shows "\<exists>bs q. encodeBinary p = Inr bs \<and> decodeBinary bs = Inr q \<and>
    decodeBinary (bs @ t) = Inr q"
proof -
  from encodeBinary_total [OF assms] obtain bs where bs: "encodeBinary p = Inr bs" ..
  have "decodeBinary bs = Inr (solid_if_empty p)"
    using decode_encode_append [OF bs, of "[]"] by simp
  moreover have "decodeBinary (bs @ t) = Inr (solid_if_empty p)"
    by (rule decode_encode_append [OF bs])
  ultimately show ?thesis using bs by blast
qed

theorem decode_ignores_trailing_witness:
  "\<exists>bs q. encodeBinary triangle = Inr bs \<and> decodeBinary bs = Inr q \<and>
        decodeBinary (bs @ [1, 2, 3]) = Inr q"
  using decode_ignores_trailing [of triangle "[1, 2, 3]"]
  by (simp add: triangle_def)

text \<open>
  The bytes of an encoding, as \<^verbatim>\<open>pack\<close> lays them out: the contour count, then for every
  contour the signed point count (\<open>-3\<close> for the hole of three points) and the doubles.
\<close>

lemma be_bytes_numeral:
  "be_bytes (numeral n) v = be_bytes (pred_numeral n) (v div 256) @ [word_of_int (v mod 256)]"
  by (simp add: numeral_eq_Suc)

lemma encodeBinary_triangle_with_hole:
  "encodeBinary triangle_with_hole =
     Inr [0, 0, 0, 2,
          0, 0, 0, 3,
          0, 0, 0, 0, 0, 0, 0, 0,  0, 0, 0, 0, 0, 0, 0, 0,
          63, 240, 0, 0, 0, 0, 0, 0,  0, 0, 0, 0, 0, 0, 0, 0,
          0, 0, 0, 0, 0, 0, 0, 0,  63, 240, 0, 0, 0, 0, 0, 0,
          255, 255, 255, 253,
          0, 0, 0, 0, 0, 0, 0, 0,  0, 0, 0, 0, 0, 0, 0, 0,
          63, 208, 0, 0, 0, 0, 0, 0,  0, 0, 0, 0, 0, 0, 0, 0,
          0, 0, 0, 0, 0, 0, 0, 0,  63, 208, 0, 0, 0, 0, 0, 0]"
  by (simp add: triangle_with_hole_def encodeBinary_def pack_I_def pack_l_def pack_d_def
      flatten_def be_bytes_numeral)

section \<open>The ring buffer: claim\<close>

lemma RingBuffer_call_in_range:
  assumes "rb_s rb = seq" "rb_l rb = length seq" "rb_i rb < length seq"
  shows "RingBuffer_call rb =
    Inr (seq ! rb_i rb, rb\<lparr>rb_i := Suc (rb_i rb) mod length seq\<rparr>)"
proof -
  have "(if rb_i rb + 1 = length seq then 0 else rb_i rb + 1) = Suc (rb_i rb) mod length seq"
    using assms(3) by (auto simp: mod_Suc)
  then show ?thesis
    using assms by (simp add: RingBuffer_call_def)
qed

lemma RingBuffer_calls_from:
  assumes "rb_s rb = seq" "rb_l rb = length seq" "rb_i rb < length seq"
  shows "RingBuffer_calls n rb =
    Inr (map (\<lambda>k. seq ! ((rb_i rb + k) mod length seq)) [0..<n],
         rb\<lparr>rb_i := (rb_i rb + n) mod length seq\<rparr>)"
  using assms
proof (induction n arbitrary: rb)
  case 0
  then show ?case by simp
next
  case (Suc n)
  let ?rb = "rb\<lparr>rb_i := Suc (rb_i rb) mod length seq\<rparr>"
  have pos: "0 < length seq" using Suc.prems(3) by (cases seq) simp_all
  have call: "RingBuffer_call rb = Inr (seq ! rb_i rb, ?rb)"
    by (rule RingBuffer_call_in_range [OF Suc.prems])
  have "RingBuffer_calls n ?rb =
      Inr (map (\<lambda>k. seq ! ((rb_i ?rb + k) mod length seq)) [0..<n],
           ?rb\<lparr>rb_i := (rb_i ?rb + n) mod length seq\<rparr>)"
    using Suc.prems pos by (intro Suc.IH) simp_all
  moreover have "(Suc (rb_i rb) mod length seq + k) mod length seq =
      (rb_i rb + Suc k) mod length seq" for k
    by (simp add: mod_add_left_eq)
  moreover have "[0..<Suc n] = 0 # map Suc [0..<n]"
    by (simp add: upt_conv_Cons map_Suc_upt del: upt_Suc)
  ultimately show ?case
    using Suc.prems(3) by (simp add: call comp_def del: upt_Suc)
qed

text \<open>
  Claim C8. A ring buffer built from a sequence that is not empty returns, at its
  \<open>k\<close>-th call (counting from 0), the element \<open>k mod length seq\<close> of the sequence; the
  sequence it holds is the same after any number of calls.
\<close>

theorem RingBuffer_cycles:
  assumes "seq \<noteq> []"
  shows "\<exists>rb. RingBuffer_calls n (RingBuffer_init seq) =
      Inr (map (\<lambda>k. seq ! (k mod length seq)) [0..<n], rb) \<and> rb_s rb = seq"
  using assms RingBuffer_calls_from [of "RingBuffer_init seq" seq n]
  by (simp add: RingBuffer_init_def)

theorem RingBuffer_cycles_witness:
  "\<exists>rb. RingBuffer_calls 7 (RingBuffer_init ''ABC'') = Inr (''ABCABCA'', rb) \<and> rb_s rb = ''ABC''"
  using RingBuffer_cycles [of "''ABC''" 7] by (simp add: upt_rec [of _ "numeral _"] )

section \<open>Unfolding the model on examples\<close>

lemmas io_defs = io_bind_def io_return_def io_raise_def io_lift_def io_gets_def for_each_def
  new_stream_def fwrite_def fread_def fclose_def close_if_def Polygon_copy_def
  Polygon_update_def Polygon_get_def nth_py_def pdiv_def bounding_boxes_def

lemmas svg_defs = writeSVG_def svg_render_def extent_def svg_size_def svg_labels_def svg_polygon_def
  label_anchor_def truthy_def truthy_list_def the_list_def or_default_def
  bb0_def bb1_def bb2_def bb3_def RingBuffer_init_def RingBuffer_call_def default_colors_def

lemmas sample_defs = sample_engine_def sample_boundingBox_def sample_flop_def
  sample_warpToBox_def sample_center_def no_args_def

section \<open>Reading XML: lemmas\<close>

lemma getElementsByTagName_elements:
  "list_all is_element (getElementsByTagName name ns)"
  by (induction name ns rule: getElementsByTagName.induct) simp_all

lemma read_points_filter:
  "read_points pyfloat ns = read_points pyfloat (filter is_element ns)"
proof (induction ns)
  case Nil
  show ?case by simp
next
  case (Cons n ns)
  then show ?case by (cases n) (auto split: sum.splits option.splits)
qed

lemma read_contours_filter:
  "read_contours pyfloat pyint ns p = read_contours pyfloat pyint (filter is_element ns) p"
proof (induction ns arbitrary: p)
  case Nil
  show ?case by simp
next
  case (Cons n ns)
  then show ?case by (cases n) (auto split: sum.splits option.splits)
qed

lemma read_contours_append:
  "read_contours pyfloat pyint (xs @ ys) p =
     (case read_contours pyfloat pyint xs p of Inl e \<Rightarrow> Inl e
      | Inr q \<Rightarrow> read_contours pyfloat pyint ys q)"
proof (induction xs arbitrary: p)
  case Nil
  show ?case by simp
next
  case (Cons n xs)
  then show ?case by (cases n) (auto split: sum.splits option.splits)
qed

lemma read_points_length:
  "read_points pyfloat ns = Inr polist \<Longrightarrow> length polist = length (filter is_element ns)"
proof (induction ns arbitrary: polist)
  case Nil
  then show ?case by simp
next
  case (Cons n ns)
  then show ?case by (cases n) (auto split: sum.splits option.splits)
qed

lemma read_contours_accepts:
  "read_contours pyfloat pyint ns p0 = Inr p \<Longrightarrow>
   length p = length p0 + length (filter is_element ns) \<and>
   list_all (points_ok pyint) (filter is_element ns)"
proof (induction ns arbitrary: p0 p)
  case Nil
  then show ?case by simp
next
  case (Cons nd ns)
  show ?case
  proof (cases nd)
    case Other
    with Cons show ?thesis by simp
  next
    case (Element tg attrs ch)
  from Cons.prems Element obtain polist h where
    tg: "tg = ''contour''" and
    pts: "read_points pyfloat ch = Inr polist" and
    n: "pyint (getAttribute attrs ''points'') = Some (int (length polist))" and
    h: "pyint (getAttribute attrs ''isHole'') = Some h" and
    rest: "read_contours pyfloat pyint ns (addContour p0 polist (h \<noteq> 0)) = Inr p"
    by (auto split: sum.splits option.splits if_splits)
  have "length p = length (addContour p0 polist (h \<noteq> 0)) + length (filter is_element ns) \<and>
      list_all (points_ok pyint) (filter is_element ns)"
    by (rule Cons.IH [OF rest])
  moreover have "points_ok pyint (Element tg attrs ch)"
    using n read_points_length [OF pts] by (simp add: points_ok_def)
  ultimately show ?thesis
    by (simp add: addContour_def Element)
  qed
qed

lemma read_polygon_accepts:
  assumes "read_polygon pyfloat pyint pn = Inr p" and "is_element pn"
  shows "polygon_counts_ok pyint pn"
proof -
  from assms(2) obtain tg attrs ch where pn: "pn = Element tg attrs ch"
    by (cases pn) simp_all
  from assms(1) pn have
    cs: "read_contours pyfloat pyint ch [] = Inr p" and
    n: "pyint (getAttribute attrs ''contours'') = Some (int (length p))"
    by (auto split: sum.splits option.splits if_splits)
  show ?thesis
    using read_contours_accepts [OF cs] n by (simp add: polygon_counts_ok_def pn)
qed

lemma read_polygons_accepts:
  "read_polygons pyfloat pyint pns = Inr plist \<Longrightarrow> list_all is_element pns \<Longrightarrow>
   list_all (polygon_counts_ok pyint) pns"
proof (induction pns arbitrary: plist)
  case Nil
  show ?case by simp
next
  case (Cons pn pns)
  from Cons.prems(1) obtain p ps where
    p: "read_polygon pyfloat pyint pn = Inr p" and
    ps: "read_polygons pyfloat pyint pns = Inr ps"
    by (auto split: sum.splits)
  show ?case
    using read_polygon_accepts [OF p] Cons.IH [OF ps] Cons.prems(2) by simp
qed

lemma read_points_readable:
  "list_all (point_readable pyfloat) (filter is_element ns) \<Longrightarrow>
   \<exists>polist. read_points pyfloat ns = Inr polist"
proof (induction ns)
  case Nil
  show ?case by simp
next
  case (Cons n ns)
  then show ?case by (cases n) (auto simp: point_readable_def)
qed

lemma read_contours_readable:
  "list_all (contour_readable pyfloat pyint) (filter is_element ns) \<Longrightarrow>
   (if list_all (points_ok pyint) (filter is_element ns)
    then \<exists>p. read_contours pyfloat pyint ns p0 = Inr p
    else read_contours pyfloat pyint ns p0 = Inl StructuralMismatch)"
proof (induction ns arbitrary: p0)
  case Nil
  show ?case by simp
next
  case (Cons nd ns)
  show ?case
  proof (cases nd)
    case Other
    with Cons show ?thesis by simp
  next
    case (Element tg attrs ch)
  from Cons.prems Element have
    cr: "contour_readable pyfloat pyint (Element tg attrs ch)" and
    rest: "list_all (contour_readable pyfloat pyint) (filter is_element ns)"
    by simp_all
  from cr have
    tg: "tg = ''contour''" and
    pr: "list_all (point_readable pyfloat) (filter is_element ch)"
    by (simp_all add: contour_readable_def)
  from cr obtain n h where
    n: "pyint (getAttribute attrs ''points'') = Some n" and
    h: "pyint (getAttribute attrs ''isHole'') = Some h"
    by (auto simp: contour_readable_def)
  from read_points_readable [OF pr] obtain polist where
    pts: "read_points pyfloat ch = Inr polist" ..
  have len: "length polist = length (filter is_element ch)"
    by (rule read_points_length [OF pts])
  show ?thesis
  proof (cases "n = int (length polist)")
    case True
    then have ok: "points_ok pyint (Element tg attrs ch)"
      using n len by (simp add: points_ok_def)
    have "if list_all (points_ok pyint) (filter is_element ns)
        then \<exists>p. read_contours pyfloat pyint ns (addContour p0 polist (h \<noteq> 0)) = Inr p
        else read_contours pyfloat pyint ns (addContour p0 polist (h \<noteq> 0)) =
          Inl StructuralMismatch"
      by (rule Cons.IH [OF rest])
    then show ?thesis
      using ok tg pts n h True by (simp add: Element)
  next
    case False
    then have "\<not> points_ok pyint (Element tg attrs ch)"
      using n len by (simp add: points_ok_def)
    then show ?thesis
      using tg pts n False by (simp add: Element)
  qed
  qed
qed

lemma read_polygon_readable:
  assumes "is_element pn" and "polygon_readable pyfloat pyint pn"
  shows "if polygon_counts_ok pyint pn
    then \<exists>p. read_polygon pyfloat pyint pn = Inr p
    else read_polygon pyfloat pyint pn = Inl StructuralMismatch"
proof -
  from assms(1) obtain tg attrs ch where pn: "pn = Element tg attrs ch"
    by (cases pn) simp_all
  from assms(2) pn have
    cr: "list_all (contour_readable pyfloat pyint) (filter is_element ch)"
    by (simp add: polygon_readable_def)
  from assms(2) pn obtain n where n: "pyint (getAttribute attrs ''contours'') = Some n"
    by (auto simp: polygon_readable_def)
  show ?thesis
  proof (cases "list_all (points_ok pyint) (filter is_element ch)")
    case True
    with read_contours_readable [OF cr, of "[]"] obtain p where
      p: "read_contours pyfloat pyint ch [] = Inr p" by auto
    have "length p = length (filter is_element ch)"
      using read_contours_accepts [OF p] by simp
    then show ?thesis
      using True p n by (auto simp: polygon_counts_ok_def pn)
  next
    case False
    with read_contours_readable [OF cr, of "[]"] have
      "read_contours pyfloat pyint ch [] = Inl StructuralMismatch" by simp
    then show ?thesis
      using False by (simp add: polygon_counts_ok_def pn)
  qed
qed

lemma read_polygons_readable:
  "list_all is_element pns \<Longrightarrow> list_all (polygon_readable pyfloat pyint) pns \<Longrightarrow>
   (if list_all (polygon_counts_ok pyint) pns
    then \<exists>plist. read_polygons pyfloat pyint pns = Inr plist
    else read_polygons pyfloat pyint pns = Inl StructuralMismatch)"
proof (induction pns)
  case Nil
  show ?case by simp
next
  case (Cons pn pns)
  then have el: "is_element pn" and rd: "polygon_readable pyfloat pyint pn"
    by simp_all
  have IH: "if list_all (polygon_counts_ok pyint) pns
    then \<exists>plist. read_polygons pyfloat pyint pns = Inr plist
    else read_polygons pyfloat pyint pns = Inl StructuralMismatch"
    using Cons by simp
  show ?case
    using read_polygon_readable [OF el rd] IH by (auto split: if_splits)
qed

lemma read_contours_foreign:
  assumes "read_contours pyfloat pyint pre p = Inr q" and "tg \<noteq> ''contour''"
  shows "read_contours pyfloat pyint (pre @ Element tg attrs ch # post) p = Inl AssertionError"
  using assms by (simp add: read_contours_append)

lemma read_contours_rejects_foreign:
  assumes "Element tg attrs ch \<in> set ns" and "tg \<noteq> ''contour''"
  shows "isl (read_contours pyfloat pyint ns p)"
proof -
  from assms(1) obtain pre post where ns: "ns = pre @ Element tg attrs ch # post"
    by (auto dest: split_list)
  show ?thesis
  proof (cases "read_contours pyfloat pyint pre p")
    case (Inl e)
    then show ?thesis by (simp add: ns read_contours_append)
  next
    case (Inr q)
    then show ?thesis
      using read_contours_foreign [OF Inr assms(2)] by (simp add: ns)
  qed
qed

lemma read_polygon_rejects_foreign:
  assumes "Element tg attrs ch \<in> set (element_children pn)" and "tg \<noteq> ''contour''"
  shows "isl (read_polygon pyfloat pyint pn)"
proof (cases pn)
  case (Element t a c)
  with assms(1) have "Element tg attrs ch \<in> set c" by simp
  then have "isl (read_contours pyfloat pyint c [])"
    using assms(2) by (rule read_contours_rejects_foreign)
  then show ?thesis
    by (cases "read_contours pyfloat pyint c []") (simp_all add: Element)
next
  case Other
  with assms(1) show ?thesis by simp
qed

lemma read_polygons_rejects:
  "pn \<in> set pns \<Longrightarrow> isl (read_polygon pyfloat pyint pn) \<Longrightarrow>
   isl (read_polygons pyfloat pyint pns)"
proof (induction pns)
  case Nil
  then show ?case by simp
next
  case (Cons x pns)
  then show ?case
    by (cases "read_polygon pyfloat pyint x"; cases "read_polygons pyfloat pyint pns") auto
qed

lemma readXML_document:
  assumes "getReadableObject ifile w = (Inr (f, cl), w1)"
    and "\<not> s_closed (streams w1 ! f)"
    and "parseString (s_text (streams w1 ! f)) = Some d"
  shows "fst (readXML parseString pyfloat pyint ifile w) = read_document pyfloat pyint d"
  using assms
  by (simp add: readXML_def io_bind_def fread_def io_lift_def close_if_def fclose_def
      io_return_def)

section \<open>Reading XML: claims\<close>

lemmas xml_sample_defs = sample_parse_def sample_int_def sample_float_def sample_nat_def
  doc_triangle_def doc_two_points_def doc_foreign_def p_elem_def xml_files_def
  getAttribute_def

lemmas xml_spec_defs = counts_ok_def polygon_counts_ok_def points_ok_def readable_def
  polygon_readable_def contour_readable_def point_readable_def

text \<open>
  Claim C4. A document that \<^verbatim>\<open>readXML\<close> accepts has the declared counts right: the
  \<^verbatim>\<open>points\<close> attribute of every contour is the number of element children read as its
  points, and the \<^verbatim>\<open>contours\<close> attribute of every polygon is the number of contours read.
  A document with a wrong count that is readable otherwise (so that the count is the
  first thing to go wrong) makes \<^verbatim>\<open>readXML\<close> fail with StructuralMismatch. The document
  \<open>d\<close> is the one parsed from the text of the resolved source.
\<close>

theorem readXML_structural_check:
  assumes "getReadableObject ifile w = (Inr (f, cl), w1)"
    and "\<not> s_closed (streams w1 ! f)"
    and "parseString (s_text (streams w1 ! f)) = Some d"
  shows "(fst (readXML parseString pyfloat pyint ifile w) = Inr plist \<longrightarrow> counts_ok pyint d) \<and>
    (readable pyfloat pyint d \<and> \<not> counts_ok pyint d \<longrightarrow>
       fst (readXML parseString pyfloat pyint ifile w) = Inl StructuralMismatch)"
proof -
  have doc: "fst (readXML parseString pyfloat pyint ifile w) = read_document pyfloat pyint d"
    using assms by (rule readXML_document)
  show ?thesis
  proof (intro conjI impI)
    assume "fst (readXML parseString pyfloat pyint ifile w) = Inr plist"
    then have "read_polygons pyfloat pyint (getElementsByTagName ''polygon'' d) = Inr plist"
      by (simp add: doc read_document_def)
    then show "counts_ok pyint d"
      unfolding counts_ok_def
      by (rule read_polygons_accepts [OF _ getElementsByTagName_elements])
  next
    assume "readable pyfloat pyint d \<and> \<not> counts_ok pyint d"
    then show "fst (readXML parseString pyfloat pyint ifile w) = Inl StructuralMismatch"
      using read_polygons_readable [OF getElementsByTagName_elements,
          of pyfloat pyint "''polygon''" d]
      by (simp add: doc read_document_def counts_ok_def readable_def)
  qed
qed

theorem readXML_structural_check_witness:
  "fst (readXML sample_parse sample_float sample_int (IPath ''triangle.xml'') xml_files) =
     Inr [[([(0, 0), (1, 0), (0, 1)], False)]] \<and>
   counts_ok sample_int doc_triangle \<and>
   \<not> counts_ok sample_int doc_two_points \<and>
   fst (readXML sample_parse sample_float sample_int (IPath ''two_points.xml'') xml_files) =
     Inl StructuralMismatch"
proof -
  let ?t = "xml_files\<lparr>streams := [\<lparr>s_closed = False, s_text = ''triangle'', s_written = []\<rparr>]\<rparr>"
  let ?b = "xml_files\<lparr>streams := [\<lparr>s_closed = False, s_text = ''two_points'', s_written = []\<rparr>]\<rparr>"
  have rt: "getReadableObject (IPath ''triangle.xml'') xml_files = (Inr (0, True), ?t)"
    by (simp add: xml_files_def io_defs)
  have rb: "getReadableObject (IPath ''two_points.xml'') xml_files = (Inr (0, True), ?b)"
    by (simp add: xml_files_def io_defs)
  have pt: "sample_parse (s_text (streams ?t ! 0)) = Some doc_triangle"
    by (simp add: sample_parse_def)
  have pb: "sample_parse (s_text (streams ?b ! 0)) = Some doc_two_points"
    by (simp add: sample_parse_def)
  have acc: "fst (readXML sample_parse sample_float sample_int (IPath ''triangle.xml'') xml_files) =
      Inr [[([(0, 0), (1, 0), (0, 1)], False)]]"
    by (simp add: readXML_def read_document_def io_defs xml_sample_defs addContour_def)
  have ok: "counts_ok sample_int doc_triangle"
    using readXML_structural_check [where parseString = sample_parse
        and pyfloat = sample_float and pyint = sample_int, OF rt _ pt] acc
    by simp
  have bad: "readable sample_float sample_int doc_two_points \<and>
      \<not> counts_ok sample_int doc_two_points"
    by (simp add: xml_spec_defs xml_sample_defs)
  have "fst (readXML sample_parse sample_float sample_int (IPath ''two_points.xml'') xml_files) =
      Inl StructuralMismatch"
    using readXML_structural_check [where parseString = sample_parse
        and pyfloat = sample_float and pyint = sample_int, OF rb _ pb] bad
    by simp
  with acc ok bad show ?thesis by simp
qed

text \<open>
  Claim C10. In a polygon element \<^verbatim>\<open>readXML\<close> skips the child nodes that are not elements
  and no others: reading the children is reading the element children. An element
  child that is not named \<^verbatim>\<open>contour\<close> raises the assertion error as soon as the loop
  reaches it, and a document with such a child in a polygon is never accepted.
\<close>

theorem readXML_foreign_element:
  assumes "getReadableObject ifile w = (Inr (f, cl), w1)"
    and "\<not> s_closed (streams w1 ! f)"
    and "parseString (s_text (streams w1 ! f)) = Some d"
  shows "read_contours pyfloat pyint ns p =
      read_contours pyfloat pyint (filter is_element ns) p \<and>
    (read_contours pyfloat pyint pre p = Inr q \<and> tg \<noteq> ''contour'' \<longrightarrow>
       read_contours pyfloat pyint (pre @ Element tg attrs ch # post) p = Inl AssertionError) \<and>
    (pn \<in> set (getElementsByTagName ''polygon'' d) \<and>
     Element tg attrs ch \<in> set (element_children pn) \<and> tg \<noteq> ''contour'' \<longrightarrow>
       isl (fst (readXML parseString pyfloat pyint ifile w)))"
proof (intro conjI impI)
  show "read_contours pyfloat pyint ns p = read_contours pyfloat pyint (filter is_element ns) p"
    by (rule read_contours_filter)
next
  assume "read_contours pyfloat pyint pre p = Inr q \<and> tg \<noteq> ''contour''"
  then show "read_contours pyfloat pyint (pre @ Element tg attrs ch # post) p =
      Inl AssertionError"
    using read_contours_foreign by blast
next
  assume a: "pn \<in> set (getElementsByTagName ''polygon'' d) \<and>
    Element tg attrs ch \<in> set (element_children pn) \<and> tg \<noteq> ''contour''"
  then have "isl (read_polygon pyfloat pyint pn)"
    using read_polygon_rejects_foreign by blast
  with a have "isl (read_document pyfloat pyint d)"
    unfolding read_document_def using read_polygons_rejects by blast
  then show "isl (fst (readXML parseString pyfloat pyint ifile w))"
    using readXML_document [where parseString = parseString, OF assms, of pyfloat pyint]
    by simp
qed

theorem readXML_foreign_element_witness:
  "fst (readXML sample_parse sample_float sample_int (IPath ''foreign.xml'') xml_files) =
     Inl AssertionError"
proof -
  let ?w = "xml_files\<lparr>streams := [\<lparr>s_closed = False, s_text = ''foreign'', s_written = []\<rparr>]\<rparr>"
  let ?pn = "hd doc_foreign"
  have r: "getReadableObject (IPath ''foreign.xml'') xml_files = (Inr (0, True), ?w)"
    by (simp add: xml_files_def io_defs)
  have p: "sample_parse (s_text (streams ?w ! 0)) = Some doc_foreign"
    by (simp add: sample_parse_def)
  have el: "?pn \<in> set (getElementsByTagName ''polygon'' doc_foreign) \<and>
      Element ''foo'' [] [] \<in> set (element_children ?pn) \<and> ''foo'' \<noteq> ''contour''"
    by (simp add: doc_foreign_def p_elem_def)
  have "isl (fst (readXML sample_parse sample_float sample_int (IPath ''foreign.xml'')
      xml_files))"
    using readXML_foreign_element [where parseString = sample_parse
        and pyfloat = sample_float and pyint = sample_int, OF r _ p,
        where pn = ?pn and tg = "''foo''" and attrs = "[]" and ch = "[]"] el
    by simp
  moreover have "read_document sample_float sample_int doc_foreign = Inl AssertionError"
    by (simp add: read_document_def xml_sample_defs)
  ultimately show ?thesis
    using readXML_document [where parseString = sample_parse, OF r _ p,
        of sample_float sample_int]
    by simp
qed

section \<open>Frames: rules\<close>

lemma maintains_return: "maintains P (io_return x)"
  by (simp add: maintains_def io_return_def)

lemma maintains_raise: "maintains P (io_raise e)"
  by (simp add: maintains_def io_raise_def)

lemma maintains_lift: "maintains P (io_lift r)"
  by (simp add: maintains_def io_lift_def)

lemma maintains_gets: "maintains P (io_gets g)"
  by (simp add: maintains_def io_gets_def)

lemma maintains_bind:
  assumes "maintains P m" and "\<And>x. maintains P (k x)"
  shows "maintains P (io_bind m k)"
proof (unfold maintains_def, intro allI impI)
  fix w assume w: "P w"
  obtain r w1 where m: "m w = (r, w1)" by (cases "m w")
  have w1: "P w1"
    using assms(1) w m by (auto simp: maintains_def)
  show "P (snd (io_bind m k w))"
  proof (cases r)
    case (Inl e)
    then show ?thesis using m w1 by (simp add: io_bind_def)
  next
    case (Inr x)
    then show ?thesis
      using m w1 assms(2) [of x] by (simp add: io_bind_def maintains_def)
  qed
qed

text \<open>The continuation may rely on what the first operation returns.\<close>

lemma maintains_bind_result:
  assumes "maintains P m"
    and "\<And>w x. P w \<Longrightarrow> fst (m w) = Inr x \<Longrightarrow> Q x"
    and "\<And>x. Q x \<Longrightarrow> maintains P (k x)"
  shows "maintains P (io_bind m k)"
proof (unfold maintains_def, intro allI impI)
  fix w assume w: "P w"
  obtain r w1 where m: "m w = (r, w1)" by (cases "m w")
  have w1: "P w1"
    using assms(1) w m by (auto simp: maintains_def)
  show "P (snd (io_bind m k w))"
  proof (cases r)
    case (Inl e)
    then show ?thesis using m w1 by (simp add: io_bind_def)
  next
    case (Inr x)
    then have "Q x" using assms(2) [OF w, of x] m by simp
    then have "maintains P (k x)" by (rule assms(3))
    then show ?thesis
      using Inr m w1 by (simp add: io_bind_def maintains_def)
  qed
qed

lemma maintains_fold_io:
  assumes "\<And>x st. x \<in> set xs \<Longrightarrow> maintains P (body x st)"
  shows "maintains P (fold_io xs body st)"
  using assms
proof (induction xs arbitrary: st)
  case Nil
  show ?case by (simp add: maintains_return)
next
  case (Cons x xs)
  show ?case
    by (simp, rule maintains_bind) (simp_all add: Cons)
qed

lemma maintains_for_each:
  assumes "\<And>x. x \<in> set xs \<Longrightarrow> maintains P (body x)"
  shows "maintains P (for_each xs body)"
  unfolding for_each_def by (rule maintains_fold_io) (rule assms)

lemma maintains_case_prod:
  assumes "\<And>a b. maintains P (k a b)"
  shows "maintains P (case x of (a, b) \<Rightarrow> k a b)"
  by (cases x) (simp add: assms)

lemma maintains_if:
  assumes "c \<Longrightarrow> maintains P m" and "\<not> c \<Longrightarrow> maintains P n"
  shows "maintains P (if c then m else n)"
  using assms by simp

subsection \<open>The streams stay closed or open\<close>

lemma map_update_same:
  assumes "g v = g (xs ! f)"
  shows "map g (xs[f := v]) = map g xs"
proof (cases "f < length xs")
  case True
  with assms have "(map g xs)[f := g v] = map g xs"
    by (simp add: list_update_same_conv)
  then show ?thesis by (simp add: map_update)
next
  case False
  then have "xs[f := v] = xs"
    by (simp add: list_update_beyond)
  then show ?thesis by simp
qed

lemma closed_fwrite: "maintains (closed_are cs) (fwrite f x)"
  by (simp add: maintains_def closed_are_def fwrite_def map_update_same)

lemma closed_fread: "maintains (closed_are cs) (fread f)"
  by (simp add: maintains_def closed_are_def fread_def)

lemma closed_Polygon_copy: "maintains (closed_are cs) (Polygon_copy p)"
  by (simp add: maintains_def closed_are_def Polygon_copy_def)

lemma closed_Polygon_update: "maintains (closed_are cs) (Polygon_update p g)"
  by (simp add: maintains_def closed_are_def Polygon_update_def)

lemma closed_Polygon_get: "maintains (closed_are cs) (Polygon_get p)"
  by (simp add: Polygon_get_def maintains_gets)

lemma closed_clone_all: "maintains (closed_are cs) (clone_all ps)"
  by (induction ps)
     (auto intro!: maintains_bind maintains_return closed_Polygon_copy)


subsection \<open>Writers close the stream at the end\<close>

lemma closes_end: "closes_at_end cl f cs (io_bind (close_if cl f) (\<lambda>u. io_return x))"
  by (simp add: closes_at_end_def closed_are_def io_bind_def close_if_def fclose_def
      io_return_def map_update)

lemma closes_bind:
  assumes "maintains (closed_are cs) m" and "\<And>x. closes_at_end cl f cs (k x)"
  shows "closes_at_end cl f cs (io_bind m k)"
proof (unfold closes_at_end_def, intro allI impI)
  fix w assume w: "closed_are cs w"
  obtain r w1 where m: "m w = (r, w1)" by (cases "m w")
  have w1: "closed_are cs w1"
    using assms(1) w m by (auto simp: maintains_def)
  show "closed_are (if cl \<and> \<not> isl (fst (io_bind m k w)) then cs[f := True] else cs)
      (snd (io_bind m k w))"
  proof (cases r)
    case (Inl e)
    then show ?thesis using m w1 by (simp add: io_bind_def)
  next
    case (Inr x)
    then show ?thesis
      using m w1 assms(2) [of x] by (simp add: io_bind_def closes_at_end_def)
  qed
qed

lemma closes_case_prod:
  assumes "\<And>a b. closes_at_end cl f cs (k a b)"
  shows "closes_at_end cl f cs (case x of (a, b) \<Rightarrow> k a b)"
  by (cases x) (simp add: assms)

lemmas closed_rules =
  maintains_return maintains_raise maintains_lift maintains_gets maintains_case_prod
  closed_fwrite closed_fread closed_Polygon_copy closed_Polygon_update closed_Polygon_get
  closed_clone_all

lemma closes_writeGnuplot_body:
  "closes_at_end cl f cs
     (io_bind (for_each polylist (\<lambda>p.
       io_bind (Polygon_get p) (\<lambda>pv.
       for_each (map fst pv) (\<lambda>vl.
         io_bind (for_each vl (\<lambda>j. fwrite f (GnuplotPoint (fst j) (snd j)))) (\<lambda>u.
         io_bind (io_lift (nth_py vl 0)) (\<lambda>v0.
         fwrite f (GnuplotClose (fst v0) (snd v0)))))))) (\<lambda>u.
     io_bind (close_if cl f) (\<lambda>u.
     io_return f)))"
  by (intro closes_bind closes_end maintains_for_each maintains_bind closed_rules)

lemma closes_writeXML_body:
  "closes_at_end cl f cs
     (io_bind (if withHeader then fwrite f XmlHeader else io_return ()) (\<lambda>u.
     io_bind (for_each polylist (\<lambda>p.
       io_bind (Polygon_get p) (\<lambda>pv.
       fwrite f (XmlJoined (xml_lines eng pv))))) (\<lambda>u.
     io_bind (close_if cl f) (\<lambda>u.
     io_return f))))"
  by (intro closes_bind closes_end maintains_for_each maintains_bind maintains_if closed_rules)

lemma closed_label_anchor: "maintains (closed_are cs) (label_anchor eng ext cv coords p n)"
  unfolding label_anchor_def
  by (intro maintains_case_prod maintains_if maintains_bind closed_rules)

lemma closed_svg_polygon:
  "maintains (closed_are cs) (svg_polygon eng ext cv labs coords str_dy str_anchor pp bbs n st)"
  unfolding svg_polygon_def
  by (intro maintains_case_prod maintains_if maintains_bind closed_rules closed_label_anchor)

lemma closes_svg_render: "closes_at_end cl f cs (svg_render eng f cl args pp bbs)"
  unfolding svg_render_def
  by (intro closes_bind closes_end closes_case_prod maintains_fold_io closed_rules
      closed_svg_polygon)

lemma closes_writeSVG_body:
  "closes_at_end cl f cs
     (io_bind (clone_all polylist) (\<lambda>pp.
     io_bind (for_each pp (\<lambda>p. Polygon_update p (flop eng 0))) (\<lambda>u.
     io_bind (bounding_boxes eng pp) (\<lambda>bbs.
     svg_render eng f cl args pp bbs))))"
  unfolding bounding_boxes_def
  by (intro closes_bind closes_svg_render maintains_for_each closed_rules)

section \<open>Streams: claim\<close>

lemma closes_at_end_nth:
  assumes "closes_at_end cl f (map s_closed (streams w1)) m" and "f < length (streams w1)"
  shows "s_closed (streams (snd (m w1)) ! f) =
    (s_closed (streams w1 ! f) \<or> cl \<and> \<not> isl (fst (m w1)))"
proof -
  let ?cs = "map s_closed (streams w1)"
  let ?w = "snd (m w1)"
  have eq: "map s_closed (streams ?w) =
      (if cl \<and> \<not> isl (fst (m w1)) then ?cs[f := True] else ?cs)"
    using assms(1) by (simp add: closes_at_end_def closed_are_def)
  then have "length (streams ?w) = length (streams w1)"
    by (metis length_list_update length_map)
  with assms(2) have "s_closed (streams ?w ! f) = map s_closed (streams ?w) ! f"
    by simp
  also have "\<dots> = (s_closed (streams w1 ! f) \<or> cl \<and> \<not> isl (fst (m w1)))"
    using assms(2) by (auto simp: eq)
  finally show ?thesis .
qed

lemma readXML_closes:
  assumes "getReadableObject ifile w = (Inr (f, cl), w1)" and "f < length (streams w1)"
  shows "s_closed (streams (snd (readXML parseString pyfloat pyint ifile w)) ! f) =
    (s_closed (streams w1 ! f) \<or>
     cl \<and> parseString (s_text (streams w1 ! f)) \<noteq> None)"
  using assms
  by (auto simp: readXML_def io_bind_def fread_def io_lift_def close_if_def fclose_def
      io_return_def split: option.splits)

text \<open>
  Claim C2, as the code has it. For \<^verbatim>\<open>writeGnuplot\<close>, \<^verbatim>\<open>writeSVG\<close> and \<^verbatim>\<open>writeXML\<close>: the
  stream that the resolver returned is closed by the writer exactly when the resolver
  marked it owned and the writer returns without an error; a stream that is not owned is
  left as it was, and so is an owned stream when the writer aborts with an error. For
  \<^verbatim>\<open>readXML\<close>: an owned stream is closed as soon as its text is read and parsed, before the
  polygons are read from the document, whatever happens then; it stays open when the
  text cannot be parsed. (\<open>f\<close> and \<open>g\<close> are handles of streams of the world.)
\<close>

theorem stream_closed_on_return:
  assumes "getWritableObject ofile w = (Inr (f, cl), w1)" and "f < length (streams w1)"
  shows "s_closed (streams (snd (writeGnuplot ofile polylist w)) ! f) =
      (s_closed (streams w1 ! f) \<or> cl \<and> \<not> isl (fst (writeGnuplot ofile polylist w))) \<and>
    s_closed (streams (snd (writeSVG eng ofile polylist args w)) ! f) =
      (s_closed (streams w1 ! f) \<or> cl \<and> \<not> isl (fst (writeSVG eng ofile polylist args w))) \<and>
    s_closed (streams (snd (writeXML eng ofile polylist withHeader w)) ! f) =
      (s_closed (streams w1 ! f) \<or>
       cl \<and> \<not> isl (fst (writeXML eng ofile polylist withHeader w))) \<and>
    (getReadableObject ifile w = (Inr (g, rl), w2) \<and> g < length (streams w2) \<longrightarrow>
      s_closed (streams (snd (readXML parseString pyfloat pyint ifile w)) ! g) =
        (s_closed (streams w2 ! g) \<or> rl \<and> parseString (s_text (streams w2 ! g)) \<noteq> None))"
proof (intro conjI impI)
  show "s_closed (streams (snd (writeGnuplot ofile polylist w)) ! f) =
      (s_closed (streams w1 ! f) \<or> cl \<and> \<not> isl (fst (writeGnuplot ofile polylist w)))"
    using closes_at_end_nth [OF closes_writeGnuplot_body assms(2)] assms(1)
    by (simp add: writeGnuplot_def io_bind_def)
next
  show "s_closed (streams (snd (writeSVG eng ofile polylist args w)) ! f) =
      (s_closed (streams w1 ! f) \<or> cl \<and> \<not> isl (fst (writeSVG eng ofile polylist args w)))"
    using closes_at_end_nth [OF closes_writeSVG_body assms(2)] assms(1)
    by (simp add: writeSVG_def io_bind_def)
next
  show "s_closed (streams (snd (writeXML eng ofile polylist withHeader w)) ! f) =
      (s_closed (streams w1 ! f) \<or>
       cl \<and> \<not> isl (fst (writeXML eng ofile polylist withHeader w)))"
    using closes_at_end_nth [OF closes_writeXML_body assms(2)] assms(1)
    by (simp add: writeXML_def io_bind_def)
next
  assume "getReadableObject ifile w = (Inr (g, rl), w2) \<and> g < length (streams w2)"
  then show "s_closed (streams (snd (readXML parseString pyfloat pyint ifile w)) ! g) =
      (s_closed (streams w2 ! g) \<or> rl \<and> parseString (s_text (streams w2 ! g)) \<noteq> None)"
    using readXML_closes by blast
qed


theorem stream_closed_on_return_witness:
  "s_closed (streams (snd (writeGnuplot (OPath ''out.dat'') [0, 1] two_squares)) ! 0) \<and>
   \<not> isl (fst (writeGnuplot (OPath ''out.dat'') [0, 1] two_squares))"
proof -
  let ?w1 = "two_squares\<lparr>streams := [\<lparr>s_closed = False, s_text = [], s_written = []\<rparr>]\<rparr>"
  have res: "getWritableObject (OPath ''out.dat'') two_squares = (Inr (0, True), ?w1)"
    by (simp add: io_defs two_squares_def)
  have valid: "0 < length (streams ?w1)"
    by simp
  have ok: "\<not> isl (fst (writeGnuplot (OPath ''out.dat'') [0, 1] two_squares))"
    by (simp add: writeGnuplot_def io_defs two_squares_def)
  have "s_closed (streams (snd (writeGnuplot (OPath ''out.dat'') [0, 1] two_squares)) ! 0) =
      (s_closed (streams ?w1 ! 0) \<or>
       True \<and> \<not> isl (fst (writeGnuplot (OPath ''out.dat'') [0, 1] two_squares)))"
    using stream_closed_on_return [OF res valid] by blast
  with ok show ?thesis by simp
qed

text \<open>
  The claim as stated fails: \<^verbatim>\<open>writeSVG('out.svg', [p])\<close> for a polygon \<open>p\<close> whose points
  are all equal opens the file, raises the error of the degenerate extent, and leaves
  the file open.
\<close>

theorem owned_stream_left_open:
  "fst (getWritableObject (OPath ''out.svg'') one_point) = Inr (0, True) \<and>
   fst (writeSVG sample_engine (OPath ''out.svg'') [0] no_args one_point) =
     Inl DegenerateExtent \<and>
   \<not> s_closed (streams (snd (writeSVG sample_engine (OPath ''out.svg'') [0] no_args one_point)) ! 0)"
  by (simp add: io_defs svg_defs sample_defs one_point_def)

text \<open>
  \<^verbatim>\<open>writeGnuplotTriangles\<close> is not among the writers of the theorem: its second
  \<^verbatim>\<open>f.close()\<close> closes the stream of the caller as well.
\<close>

lemma writeGnuplotTriangles_closes_unowned:
  "fst (getWritableObject (OStream 0) open_stream) = Inr (0, False) \<and>
   fst (writeGnuplotTriangles sample_engine (OStream 0) [0] open_stream) = Inr () \<and>
   s_closed (streams (snd (writeGnuplotTriangles sample_engine (OStream 0) [0] open_stream)) ! 0)"
  by (simp add: writeGnuplotTriangles_def io_defs sample_defs open_stream_def)

section \<open>The Polygon objects of the caller\<close>

lemma keep_length:
  assumes "polys_keep ps w"
  shows "length ps \<le> length (polys w)"
proof -
  have "length (take (length ps) (polys w)) = length ps"
    using assms by (simp add: polys_keep_def)
  then show ?thesis by simp
qed

lemma keep_fwrite: "maintains (polys_keep ps) (fwrite f x)"
  by (simp add: maintains_def polys_keep_def fwrite_def)

lemma keep_fclose: "maintains (polys_keep ps) (fclose f)"
  by (simp add: maintains_def polys_keep_def fclose_def)

lemma keep_close_if: "maintains (polys_keep ps) (close_if cl f)"
  by (simp add: close_if_def keep_fclose maintains_return)

lemma keep_new_stream: "maintains (polys_keep ps) (new_stream txt)"
  by (simp add: maintains_def polys_keep_def new_stream_def)

lemma keep_getWritableObject: "maintains (polys_keep ps) (getWritableObject ofile)"
proof (cases ofile)
  case ONone
  show ?thesis
    unfolding ONone getWritableObject.simps
    by (intro maintains_bind keep_new_stream maintains_return)
next
  case (OPath name)
  have "maintains (polys_keep ps) (io_bind (new_stream []) (\<lambda>f. io_return (f, True)))"
    by (intro maintains_bind keep_new_stream maintains_return)
  then show ?thesis
    by (simp add: OPath maintains_def)
next
  case (OStream f)
  show ?thesis
    unfolding OStream getWritableObject.simps by (rule maintains_return)
next
  case OOther
  show ?thesis
    unfolding OOther getWritableObject.simps by (rule maintains_raise)
qed

lemma keep_Polygon_copy: "maintains (polys_keep ps) (Polygon_copy p)"
proof (unfold maintains_def, intro allI impI)
  fix w assume w: "polys_keep ps w"
  then have "length ps \<le> length (polys w)" by (rule keep_length)
  with w show "polys_keep ps (snd (Polygon_copy p w))"
    by (simp add: polys_keep_def Polygon_copy_def)
qed

lemma keep_Polygon_update:
  "length ps \<le> p \<Longrightarrow> maintains (polys_keep ps) (Polygon_update p g)"
  by (simp add: maintains_def polys_keep_def Polygon_update_def)

lemma keep_Polygon_get: "maintains (polys_keep ps) (Polygon_get p)"
  by (simp add: Polygon_get_def maintains_gets)

lemma keep_clone_all: "maintains (polys_keep ps) (clone_all qs)"
proof (induction qs)
  case Nil
  show ?case
    unfolding clone_all.simps by (rule maintains_return)
next
  case (Cons q qs)
  show ?case
    unfolding clone_all.simps
    by (intro maintains_bind keep_Polygon_copy Cons maintains_return)
qed

lemma clone_all_fst:
  "fst (clone_all qs w) = Inr [length (polys w)..<length (polys w) + length qs]"
proof (induction qs arbitrary: w)
  case Nil
  show ?case by (simp add: io_return_def)
next
  case (Cons q qs)
  let ?w = "w\<lparr>polys := polys w @ [polys w ! q]\<rparr>"
  have "fst (clone_all qs ?w) = Inr [Suc (length (polys w))..<Suc (length (polys w)) + length qs]"
    using Cons [of ?w] by simp
  moreover have "[length (polys w)..<length (polys w) + length (q # qs)] =
      length (polys w) # [Suc (length (polys w))..<Suc (length (polys w)) + length qs]"
    by (simp add: upt_conv_Cons del: upt_Suc)
  ultimately show ?case
    by (cases "clone_all qs ?w")
       (simp add: io_bind_def io_return_def Polygon_copy_def del: upt_Suc)
qed

lemma clone_all_fresh:
  assumes "polys_keep ps w" and "fst (clone_all qs w) = Inr pp"
  shows "\<forall>p \<in> set pp. length ps \<le> p"
proof -
  have "pp = [length (polys w)..<length (polys w) + length qs]"
    using assms(2) by (simp add: clone_all_fst)
  then show ?thesis
    using keep_length [OF assms(1)] by simp
qed

lemmas keep_rules =
  maintains_return maintains_raise maintains_lift maintains_gets maintains_case_prod
  keep_fwrite keep_close_if keep_Polygon_copy keep_Polygon_get keep_clone_all

lemma keep_nth_update:
  assumes "\<forall>p \<in> set pp. length ps \<le> p" and "\<And>p. maintains (polys_keep ps) (k p)"
  shows "maintains (polys_keep ps)
    (io_bind (io_lift (nth_py pp n)) (\<lambda>p. k p))"
  by (intro maintains_bind maintains_lift assms(2))

lemma keep_label_anchor: "maintains (polys_keep ps) (label_anchor eng ext cv coords p n)"
  unfolding label_anchor_def
  by (intro maintains_case_prod maintains_if maintains_bind keep_rules)

lemma keep_svg_polygon:
  assumes "\<forall>p \<in> set pp. length ps \<le> p"
  shows "maintains (polys_keep ps)
    (svg_polygon eng ext cv labs coords str_dy str_anchor pp bbs n st)"
proof -
  have fresh: "length ps \<le> p" if "fst (io_lift (nth_py pp n) w) = Inr p" for w p
    using that assms by (auto simp: io_lift_def nth_py_def split: if_splits)
  show ?thesis
    unfolding svg_polygon_def
    apply (intro maintains_case_prod)
    apply (rule maintains_bind_result [where Q = "\<lambda>p. length ps \<le> p"])
      apply (rule maintains_lift)
     apply (erule fresh)
    apply (intro maintains_bind maintains_if keep_rules keep_label_anchor keep_Polygon_update)
    apply assumption
    done
qed

lemma keep_pdf_warp:
  assumes "\<forall>p \<in> set pp. length ps \<le> p"
  shows "maintains (polys_keep ps) (pdf_warp eng ext cv pp bbs n)"
proof -
  have fresh: "length ps \<le> p" if "fst (io_lift (nth_py pp n) w) = Inr p" for w p
    using that assms by (auto simp: io_lift_def nth_py_def split: if_splits)
  show ?thesis
    unfolding pdf_warp_def
    apply (intro maintains_case_prod)
    apply (rule maintains_bind_result [where Q = "\<lambda>p. length ps \<le> p"])
      apply (rule maintains_lift)
     apply (erule fresh)
    apply (intro maintains_bind keep_rules keep_Polygon_update)
    apply assumption
    done
qed

lemma keep_pdf_polygon: "maintains (polys_keep ps) (pdf_polygon poly st)"
  unfolding pdf_polygon_def
  by (intro maintains_case_prod maintains_bind keep_rules)

lemma keep_writeSVG: "maintains (polys_keep ps) (writeSVG eng ofile polylist args)"
  unfolding writeSVG_def svg_render_def bounding_boxes_def
  apply (rule maintains_bind [OF keep_getWritableObject])
  apply (rule maintains_case_prod)
  apply (rule maintains_bind_result [where Q = "\<lambda>pp. \<forall>p \<in> set pp. length ps \<le> p"])
    apply (rule keep_clone_all)
   apply (erule (1) clone_all_fresh)
  apply (intro maintains_bind maintains_for_each maintains_fold_io keep_rules
      keep_svg_polygon keep_Polygon_update)
   apply simp_all
  done

lemma keep_writePDF:
  "maintains (polys_keep ps) (writePDF eng A4 polylist pagesize linewidth fill)"
  unfolding writePDF_def bounding_boxes_def
  apply (rule maintains_bind_result [where Q = "\<lambda>pp. \<forall>p \<in> set pp. length ps \<le> p"])
    apply (rule keep_clone_all)
   apply (erule (1) clone_all_fresh)
  apply (intro maintains_bind maintains_for_each maintains_fold_io keep_rules
      keep_pdf_warp keep_pdf_polygon)
  apply simp_all
  done

text \<open>
  Claim C7. \<^verbatim>\<open>writeSVG\<close> and \<^verbatim>\<open>writePDF\<close> leave every Polygon object that exists when
  they are called as it is, however they end: the objects they change (by the flop and
  by the warp into the canvas) are the clones they have made, which lie behind the
  objects of the caller in the store. In particular every polygon of the list is
  unchanged.
\<close>

theorem exporters_keep_polygons:
  "take (length (polys w)) (polys (snd (writeSVG eng ofile polylist args w))) = polys w \<and>
   take (length (polys w))
     (polys (snd (writePDF eng A4 polylist pagesize linewidth fill w))) = polys w \<and>
   (\<forall>p \<in> set polylist. p < length (polys w) \<longrightarrow>
      polys (snd (writeSVG eng ofile polylist args w)) ! p = polys w ! p \<and>
      polys (snd (writePDF eng A4 polylist pagesize linewidth fill w)) ! p = polys w ! p)"
proof -
  have start: "polys_keep (polys w) w"
    by (simp add: polys_keep_def)
  have svg: "take (length (polys w)) (polys (snd (writeSVG eng ofile polylist args w))) =
      polys w"
    using keep_writeSVG [of "polys w" eng ofile polylist args] start
    by (simp add: maintains_def polys_keep_def)
  have pdf: "take (length (polys w))
      (polys (snd (writePDF eng A4 polylist pagesize linewidth fill w))) = polys w"
    using keep_writePDF [of "polys w" eng A4 polylist pagesize linewidth fill] start
    by (simp add: maintains_def polys_keep_def)
  have "xs ! p = polys w ! p" if "take (length (polys w)) xs = polys w" "p < length (polys w)"
    for xs p
    using that by (metis nth_take)
  with svg pdf show ?thesis by blast
qed

theorem exporters_keep_polygons_witness:
  "take 1 (polys (snd (writeSVG sample_engine (OStream 0) [0] no_args open_stream))) =
     [[([(0, 0), (1, 0), (0, 1)], False)]] \<and>
   polys (snd (writeSVG sample_engine (OStream 0) [0] no_args open_stream)) ! 1 =
     [([(0, 300), (300, 300), (0, 0)], False)] \<and>
   take 1 (polys (snd (writePDF sample_engine (595, 842) [0] None 0 None open_stream))) =
     [[([(0, 0), (1, 0), (0, 1)], False)]] \<and>
   polys (snd (writePDF sample_engine (595, 842) [0] None 0 None open_stream)) ! 1 =
     [([(0, 0), (595, 0), (0, 595)], False)]"
proof -
  have len: "length (polys open_stream) = 1" and
    ps: "polys open_stream = [[([(0, 0), (1, 0), (0, 1)], False)]]"
    by (simp_all add: open_stream_def)
  have keep:
    "take 1 (polys (snd (writeSVG sample_engine (OStream 0) [0] no_args open_stream))) =
       polys open_stream \<and>
     take 1 (polys (snd (writePDF sample_engine (595, 842) [0] None 0 None open_stream))) =
       polys open_stream"
    using exporters_keep_polygons [of open_stream sample_engine "OStream 0" "[0]" no_args
        "(595, 842)" None 0 None]
    by (simp add: len)
  have svg: "polys (snd (writeSVG sample_engine (OStream 0) [0] no_args open_stream)) ! 1 =
      [([(0, 300), (300, 300), (0, 0)], False)]"
    by (simp add: io_defs svg_defs sample_defs open_stream_def upt_rec [of 0])
  have pdf: "polys (snd (writePDF sample_engine (595, 842) [0] None 0 None open_stream)) ! 1 =
      [([(0, 0), (595, 0), (0, 595)], False)]"
    by (simp add: writePDF_def pdf_warp_def pdf_polygon_def io_defs svg_defs sample_defs
        open_stream_def upt_rec [of 0])
  from keep svg pdf show ?thesis
    by (simp add: ps)
qed


section \<open>The clones and their bounding boxes\<close>

lemma getWritableObject_polys:
  "getWritableObject ofile w = (r, w1) \<Longrightarrow> polys w1 = polys w"
  by (cases ofile)
     (auto simp: io_bind_def io_return_def io_raise_def new_stream_def split: if_splits)

lemma for_each_Cons:
  "for_each (x # xs) body = io_bind (body x) (\<lambda>u. for_each xs body)"
  by (simp add: for_each_def)

lemma for_each_Nil: "for_each [] body = io_return ()"
  by (simp add: for_each_def)

lemma clone_all_valid:
  "\<forall>q \<in> set qs. q < length (polys w) \<Longrightarrow>
   clone_all qs w =
     (Inr [length (polys w)..<length (polys w) + length qs],
      w\<lparr>polys := polys w @ map (\<lambda>q. polys w ! q) qs\<rparr>)"
proof (induction qs arbitrary: w)
  case Nil
  show ?case by (simp add: io_return_def)
next
  case (Cons q qs)
  let ?w = "w\<lparr>polys := polys w @ [polys w ! q]\<rparr>"
  have valid: "\<forall>q' \<in> set qs. q' < length (polys ?w)"
    using Cons.prems by auto
  have same: "map (\<lambda>q'. polys ?w ! q') qs = map (\<lambda>q'. polys w ! q') qs"
    using Cons.prems by (simp add: nth_append)
  have step: "Polygon_copy q w = (Inr (length (polys w)), ?w)"
    by (simp add: Polygon_copy_def)
  have rest: "clone_all qs ?w =
      (Inr [Suc (length (polys w))..<Suc (length (polys w)) + length qs],
       w\<lparr>polys := polys w @ polys w ! q # map (\<lambda>q'. polys w ! q') qs\<rparr>)"
    using Cons.IH [OF valid] same by simp
  have upt: "[length (polys w)..<length (polys w) + length (q # qs)] =
      length (polys w) # [Suc (length (polys w))..<Suc (length (polys w)) + length qs]"
    by (simp add: upt_conv_Cons del: upt_Suc)
  show ?case
    unfolding clone_all.simps upt
    by (simp only: io_bind_def io_return_def step rest prod.case sum.case list.map append_Cons)
qed

lemma for_each_update:
  "length xs = n \<Longrightarrow> polys w = xs @ ys \<Longrightarrow>
   for_each [n..<n + length ys] (\<lambda>p. Polygon_update p g) w =
     (Inr (), w\<lparr>polys := xs @ map g ys\<rparr>)"
proof (induction ys arbitrary: xs n w)
  case Nil
  then show ?case by (simp add: for_each_Nil io_return_def)
next
  case (Cons y ys)
  let ?w = "w\<lparr>polys := (xs @ [g y]) @ ys\<rparr>"
  have upt: "[n..<n + length (y # ys)] = n # [Suc n..<Suc n + length ys]"
    by (simp add: upt_conv_Cons del: upt_Suc)
  have "(xs @ y # ys)[length xs := g ((xs @ y # ys) ! length xs)] = xs @ g y # ys"
    by simp
  then have step: "Polygon_update n g w = (Inr (), ?w)"
    using Cons.prems by (simp add: Polygon_update_def)
  have "for_each [Suc n..<Suc n + length ys] (\<lambda>p. Polygon_update p g) ?w =
      (Inr (), ?w\<lparr>polys := (xs @ [g y]) @ map g ys\<rparr>)"
    using Cons.prems by (intro Cons.IH) simp_all
  then have rest: "for_each [Suc n..<Suc n + length ys] (\<lambda>p. Polygon_update p g) ?w =
      (Inr (), w\<lparr>polys := xs @ map g (y # ys)\<rparr>)"
    by simp
  show ?case
    unfolding upt for_each_Cons
    by (simp only: io_bind_def step rest prod.case sum.case)
qed

lemma map_nth_append:
  "map (\<lambda>p. (xs @ zs) ! p) [length xs..<length xs + length zs] = zs"
proof (rule nth_equalityI)
  show "length (map (\<lambda>p. (xs @ zs) ! p) [length xs..<length xs + length zs]) = length zs"
    by simp
next
  fix n assume "n < length (map (\<lambda>p. (xs @ zs) ! p) [length xs..<length xs + length zs])"
  then show "map (\<lambda>p. (xs @ zs) ! p) [length xs..<length xs + length zs] ! n = zs ! n"
    by (simp add: nth_append)
qed

lemma writeSVG_render:
  assumes "getWritableObject ofile w = (Inr (f, cl), w1)"
    and "\<forall>p \<in> set polylist. p < length (polys w)"
  shows "writeSVG eng ofile polylist args w =
    svg_render eng f cl args [length (polys w)..<length (polys w) + length polylist]
      (flopped_boxes eng polylist w)
      (w1\<lparr>polys := polys w @ map (\<lambda>p. flop eng 0 (polys w ! p)) polylist\<rparr>)"
proof -
  let ?n = "length (polys w)"
  let ?pp = "[?n..<?n + length polylist]"
  let ?ys = "map (\<lambda>q. polys w ! q) polylist"
  let ?zs = "map (\<lambda>p. flop eng 0 (polys w ! p)) polylist"
  let ?w2 = "w1\<lparr>polys := polys w @ ?ys\<rparr>"
  let ?w3 = "w1\<lparr>polys := polys w @ ?zs\<rparr>"
  have p1: "polys w1 = polys w"
    using assms(1) by (rule getWritableObject_polys)
  have clone: "clone_all polylist w1 = (Inr ?pp, ?w2)"
    using clone_all_valid [of polylist w1] assms(2) by (simp add: p1)
  have "for_each [?n..<?n + length ?ys] (\<lambda>p. Polygon_update p (flop eng 0)) ?w2 =
      (Inr (), ?w2\<lparr>polys := polys w @ map (flop eng 0) ?ys\<rparr>)"
    by (rule for_each_update) simp_all
  moreover have "map (flop eng 0) ?ys = ?zs"
    by (simp add: comp_def)
  moreover have "length ?ys = length polylist"
    by simp
  ultimately have flop:
    "for_each ?pp (\<lambda>p. Polygon_update p (flop eng 0)) ?w2 = (Inr (), ?w3)"
    by simp
  have "map (\<lambda>p. (polys w @ ?zs) ! p) [?n..<?n + length ?zs] = ?zs"
    by (rule map_nth_append)
  then have nth: "map (\<lambda>p. polys ?w3 ! p) ?pp = ?zs"
    by simp
  have "map (\<lambda>p. boundingBox eng (polys ?w3 ! p)) ?pp =
      map (boundingBox eng) (map (\<lambda>p. polys ?w3 ! p) ?pp)"
    by (simp only: map_map comp_def)
  also have "\<dots> = flopped_boxes eng polylist w"
    by (simp only: nth flopped_boxes_def map_map comp_def)
  finally have boxes: "bounding_boxes eng ?pp ?w3 = (Inr (flopped_boxes eng polylist w), ?w3)"
    by (simp add: bounding_boxes_def io_gets_def)
  show ?thesis
    unfolding writeSVG_def
    by (simp only: io_bind_def assms(1) clone flop boxes prod.case sum.case)
qed

section \<open>The extent\<close>

lemma extent_cases:
  assumes "bbs \<noteq> []"
  shows "extent bbs =
    (if x_extent bbs = 0 \<and> y_extent bbs = 0 then Inl DegenerateExtent
     else Inr (Min (set (map bb0 bbs)), Min (set (map bb2 bbs)), x_extent bbs, y_extent bbs))"
proof -
  from assms obtain bb rest where bbs: "bbs = bb # rest"
    by (cases bbs) auto
  have "fold min (map bb0 rest) (bb0 bb) = Min (set (map bb0 bbs))"
    "fold max (map bb1 rest) (bb1 bb) = Max (set (map bb1 bbs))"
    "fold min (map bb2 rest) (bb2 bb) = Min (set (map bb2 bbs))"
    "fold max (map bb3 rest) (bb3 bb) = Max (set (map bb3 bbs))"
    using Min.set_eq_fold [of "bb0 bb" "map bb0 rest"] Max.set_eq_fold [of "bb1 bb" "map bb1 rest"]
      Min.set_eq_fold [of "bb2 bb" "map bb2 rest"] Max.set_eq_fold [of "bb3 bb" "map bb3 rest"]
    by (simp_all add: bbs)
  then show ?thesis
    by (simp add: extent_def bbs x_extent_def y_extent_def Let_def)
qed

section \<open>Errors that an operation cannot raise\<close>

lemma never_return: "never_raises e (io_return x)"
  by (simp add: never_raises_def io_return_def)

lemma never_lift: "r \<noteq> Inl e \<Longrightarrow> never_raises e (io_lift r)"
  by (simp add: never_raises_def io_lift_def)

lemma never_gets: "never_raises e (io_gets g)"
  by (simp add: never_raises_def io_gets_def)

lemma never_bind:
  assumes "never_raises e m" and "\<And>x. never_raises e (k x)"
  shows "never_raises e (io_bind m k)"
proof (unfold never_raises_def, intro allI)
  fix w
  obtain r w1 where m: "m w = (r, w1)" by (cases "m w")
  show "fst (io_bind m k w) \<noteq> Inl e"
  proof (cases r)
    case (Inl e')
    then show ?thesis
      using assms(1) m by (auto simp: io_bind_def never_raises_def dest: spec [of _ w])
  next
    case (Inr x)
    then show ?thesis
      using assms(2) [of x] m by (simp add: io_bind_def never_raises_def)
  qed
qed

lemma never_fold_io:
  assumes "\<And>x st. never_raises e (body x st)"
  shows "never_raises e (fold_io xs body st)"
proof (induction xs arbitrary: st)
  case Nil
  show ?case by (simp add: never_return)
next
  case (Cons x xs)
  show ?case
    unfolding fold_io.simps by (intro never_bind assms Cons)
qed

lemma never_case_prod:
  assumes "\<And>a b. never_raises e (k a b)"
  shows "never_raises e (case x of (a, b) \<Rightarrow> k a b)"
  by (cases x) (simp add: assms)

lemma never_if:
  assumes "c \<Longrightarrow> never_raises e m" and "\<not> c \<Longrightarrow> never_raises e n"
  shows "never_raises e (if c then m else n)"
  using assms by simp

lemma never_fwrite: "e \<noteq> ValueError \<Longrightarrow> never_raises e (fwrite f x)"
  by (auto simp: never_raises_def fwrite_def)

lemma never_close_if: "never_raises e (close_if cl f)"
  by (simp add: never_raises_def close_if_def fclose_def io_return_def)

lemma never_Polygon_update: "never_raises e (Polygon_update p g)"
  by (simp add: never_raises_def Polygon_update_def)

lemma never_Polygon_get: "never_raises e (Polygon_get p)"
  by (simp add: Polygon_get_def never_gets)

text \<open>What the parts of \<^verbatim>\<open>writeSVG\<close> behind the test of the extent can raise.\<close>

lemma pdiv_error: "pdiv x y = Inl e \<Longrightarrow> e = ZeroDivisionError"
  by (simp add: pdiv_def split: if_splits)

lemma nth_py_error: "nth_py xs n = Inl e \<Longrightarrow> e = IndexError"
  by (simp add: nth_py_def split: if_splits)

lemma RingBuffer_call_error: "RingBuffer_call rb = Inl e \<Longrightarrow> e = IndexError"
  by (simp add: RingBuffer_call_def split: if_splits)

lemma subpaths_error: "subpaths cs = Inl e \<Longrightarrow> e = IndexError"
  by (induction cs arbitrary: e rule: subpaths.induct) (auto split: sum.splits)

lemma svg_size_error: "svg_size a w0 h0 = Inl e \<Longrightarrow> e = ZeroDivisionError"
  by (auto simp: svg_size_def Let_def dest: pdiv_error
      split: option.splits if_splits sum.splits)

lemma svg_labels_error:
  "svg_labels npoly labs coords centered = Inl e \<Longrightarrow>
   e = LabelCountMismatch \<or> e = LabelCoordMismatch"
  by (auto simp: svg_labels_def Let_def split: if_splits)

lemma canvas_error:
  "(case (w2, h2) of (Some wv, Some hv) \<Rightarrow> Inr (wv, hv) | _ \<Rightarrow> Inl TypeError) = Inl e \<Longrightarrow>
   e = TypeError"
  by (auto split: option.splits)

lemma degenerate_pdiv: "pdiv x y \<noteq> Inl DegenerateExtent"
  using pdiv_error by fastforce

lemma degenerate_nth_py: "nth_py xs n \<noteq> Inl DegenerateExtent"
  using nth_py_error by fastforce

lemma degenerate_RingBuffer_call: "RingBuffer_call rb \<noteq> Inl DegenerateExtent"
  using RingBuffer_call_error by fastforce

lemma degenerate_subpaths: "subpaths cs \<noteq> Inl DegenerateExtent"
  using subpaths_error by fastforce

lemma degenerate_svg_size: "svg_size a w0 h0 \<noteq> Inl DegenerateExtent"
  using svg_size_error by fastforce

lemma degenerate_svg_labels: "svg_labels npoly labs coords centered \<noteq> Inl DegenerateExtent"
  using svg_labels_error by fastforce

lemma degenerate_canvas:
  "(case (w2, h2) of (Some wv, Some hv) \<Rightarrow> Inr (wv, hv) | _ \<Rightarrow> Inl TypeError) \<noteq>
   Inl DegenerateExtent"
  using canvas_error by fastforce

lemmas degenerate_rules =
  never_bind never_case_prod never_if never_return never_lift never_gets never_fold_io
  never_close_if never_Polygon_update never_Polygon_get
  degenerate_pdiv degenerate_nth_py degenerate_RingBuffer_call degenerate_subpaths
  degenerate_svg_size degenerate_svg_labels degenerate_canvas

lemma degenerate_label_anchor:
  "never_raises DegenerateExtent (label_anchor eng ext cv coords p n)"
  unfolding label_anchor_def by (intro degenerate_rules)

lemma degenerate_svg_polygon:
  "never_raises DegenerateExtent
     (svg_polygon eng ext cv labs coords str_dy str_anchor pp bbs n st)"
  unfolding svg_polygon_def by (intro degenerate_rules degenerate_label_anchor)

lemma degenerate_svg_render:
  assumes "extent bbs \<noteq> Inl DegenerateExtent"
  shows "never_raises DegenerateExtent (svg_render eng f cl args pp bbs)"
  unfolding svg_render_def
  by (intro degenerate_rules degenerate_svg_polygon never_fwrite assms) simp

section \<open>The degenerate extent: claim\<close>

lemma isl_bind:
  assumes "\<And>x w'. isl (fst (k x w'))"
  shows "isl (fst (io_bind m k w))"
proof (cases "m w")
  case (Pair r w1)
  then show ?thesis
    using assms by (cases r) (simp_all add: io_bind_def)
qed

lemma isl_bind_first:
  assumes "isl (fst (m w))"
  shows "isl (fst (io_bind m k w))"
proof (cases "m w")
  case (Pair r w1)
  then show ?thesis
    using assms by (cases r) (simp_all add: io_bind_def)
qed

lemma isl_case_prod:
  assumes "\<And>a b. isl (fst (k a b w))"
  shows "isl (fst ((case x of (a, b) \<Rightarrow> k a b) w))"
  by (cases x) (simp add: assms)

lemma io_bind_lift_Inr: "io_bind (io_lift (Inr x)) k = k x"
  by (rule ext) (simp add: io_bind_def io_lift_def)

lemma svg_polygon_flat:
  assumes "0 < length pp" and "0 < length bbs" and "xdim \<noteq> 0"
  shows "fst (svg_polygon eng (minx, miny, xdim, 0) cv labs coords str_dy str_anchor pp bbs 0
    st w) = Inl ZeroDivisionError"
proof -
  obtain wv hv where cv: "cv = (wv, hv)" by (cases cv)
  obtain s fc fo sc sw where st: "st = (s, fc, fo, sc, sw)" by (cases st)
  show ?thesis
    using assms by (simp add: svg_polygon_def cv st io_bind_def io_lift_def nth_py_def pdiv_def)
qed

lemma svg_loop_flat:
  assumes "0 < length pp" and "0 < length bbs" and "xdim \<noteq> 0"
  shows "isl (fst (fold_io [0..<length pp]
    (svg_polygon eng (minx, miny, xdim, 0) cv labs coords str_dy str_anchor pp bbs) st w))"
proof -
  have "[0..<length pp] = 0 # [1..<length pp]"
    using assms(1) by (simp add: upt_conv_Cons del: upt_Suc)
  then show ?thesis
    using svg_polygon_flat [OF assms, of eng minx miny cv labs coords str_dy str_anchor st w]
    by (simp add: isl_bind_first)
qed

lemma svg_render_extent:
  assumes "bbs \<noteq> []" and "length pp = length bbs"
  shows "(fst (svg_render eng f cl args pp bbs w) = Inl DegenerateExtent) =
      (x_extent bbs = 0 \<and> y_extent bbs = 0) \<and>
    (x_extent bbs = 0 \<and> y_extent bbs \<noteq> 0 \<longrightarrow>
      fst (svg_render eng f cl args pp bbs w) = Inl ZeroDivisionError) \<and>
    (x_extent bbs \<noteq> 0 \<and> y_extent bbs = 0 \<longrightarrow>
      isl (fst (svg_render eng f cl args pp bbs w)))"
proof (intro conjI impI)
  show "(fst (svg_render eng f cl args pp bbs w) = Inl DegenerateExtent) =
      (x_extent bbs = 0 \<and> y_extent bbs = 0)"
  proof (cases "x_extent bbs = 0 \<and> y_extent bbs = 0")
    case True
    then show ?thesis
      by (simp add: svg_render_def io_bind_def io_lift_def extent_cases [OF assms(1)])
  next
    case False
    then have "extent bbs \<noteq> Inl DegenerateExtent"
      by (auto simp: extent_cases [OF assms(1)])
    then have "never_raises DegenerateExtent (svg_render eng f cl args pp bbs)"
      by (rule degenerate_svg_render)
    with False show ?thesis
      by (simp add: never_raises_def)
  qed
next
  assume "x_extent bbs = 0 \<and> y_extent bbs \<noteq> 0"
  then show "fst (svg_render eng f cl args pp bbs w) = Inl ZeroDivisionError"
    by (simp add: svg_render_def io_bind_def io_lift_def extent_cases [OF assms(1)] pdiv_def)
next
  assume flat: "x_extent bbs \<noteq> 0 \<and> y_extent bbs = 0"
  have len: "0 < length pp" "0 < length bbs"
    using assms by simp_all
  let ?minx = "Min (set (map bb0 bbs))" and ?miny = "Min (set (map bb2 bbs))"
  have ext: "extent bbs = Inr (?minx, ?miny, x_extent bbs, 0)"
    using flat by (simp add: extent_cases [OF assms(1)])
  have loop: "isl (fst (fold_io [0..<length pp]
      (svg_polygon eng (?minx, ?miny, x_extent bbs, 0) cv labs coords str_dy str_anchor pp bbs)
      st w'))" for cv labs coords str_dy str_anchor st w'
    using len flat by (intro svg_loop_flat) simp_all
  show "isl (fst (svg_render eng f cl args pp bbs w))"
    unfolding svg_render_def ext io_bind_lift_Inr prod.case
    apply (rule isl_bind)
    apply (rule isl_bind)
    apply (rule isl_case_prod)
    apply (rule isl_bind)
    apply (rule isl_case_prod)
    apply (rule isl_case_prod)
    apply (rule isl_bind)
    apply (rule isl_case_prod)
    apply (rule isl_bind_first)
    apply (rule loop)
    done
qed

text \<open>
  Where both aggregate extents of the flopped clones are zero the code does what its
  guard says: for a list of polygons that is not empty, \<^verbatim>\<open>writeSVG\<close> fails with
  DegenerateExtent exactly there.
\<close>

lemma writeSVG_guard_both_zero:
  assumes "getWritableObject ofile w = (Inr (f, cl), w1)"
    and "polylist \<noteq> []"
    and "\<forall>p \<in> set polylist. p < length (polys w)"
  shows "(fst (writeSVG eng ofile polylist args w) = Inl DegenerateExtent) =
      (x_extent (flopped_boxes eng polylist w) = 0 \<and>
       y_extent (flopped_boxes eng polylist w) = 0)"
proof -
  have ne: "flopped_boxes eng polylist w \<noteq> []"
    using assms(2) by (simp add: flopped_boxes_def)
  have len: "length [length (polys w)..<length (polys w) + length polylist] =
      length (flopped_boxes eng polylist w)"
    by (simp add: flopped_boxes_def)
  show ?thesis
    unfolding writeSVG_render [OF assms(1,3)]
    by (rule conjunct1 [OF svg_render_extent [OF ne len]])
qed

lemma writeSVG_one_point:
  "fst (writeSVG sample_engine ONone [0] no_args one_point) = Inl DegenerateExtent"
proof -
  let ?w1 = "one_point\<lparr>streams := [\<lparr>s_closed = False, s_text = [], s_written = []\<rparr>]\<rparr>"
  have res: "getWritableObject ONone one_point = (Inr (0, False), ?w1)"
    by (simp add: io_defs one_point_def)
  have valid: "\<forall>p \<in> set [0]. p < length (polys one_point)"
    by (simp add: one_point_def)
  have "x_extent (flopped_boxes sample_engine [0] one_point) = 0 \<and>
      y_extent (flopped_boxes sample_engine [0] one_point) = 0"
    by (simp add: sample_defs one_point_def x_extent_def y_extent_def flopped_boxes_def
        bb0_def bb1_def bb2_def bb3_def)
  then show ?thesis
    using writeSVG_guard_both_zero [OF res _ valid, of sample_engine no_args] by simp
qed

text \<open>
  The defect. The guard announces \<^verbatim>\<open>Polygons have no extent in one direction!\<close>, but its
  test \<^verbatim>\<open>not (xdim or ydim)\<close> holds only when both extents are zero, so a collection with
  exactly one zero extent passes it. No call with such a collection completes: with a
  zero x-extent the next line, \<^verbatim>\<open>a = ydim / xdim\<close>, divides by zero; with a zero y-extent
  the call ends with an error too (the division by \<^verbatim>\<open>ydim\<close> in the first round of the
  loop, if nothing fails before).
\<close>

lemma writeSVG_single_zero_extent:
  assumes "getWritableObject ofile w = (Inr (f, cl), w1)"
    and "polylist \<noteq> []"
    and "\<forall>p \<in> set polylist. p < length (polys w)"
  shows "(x_extent (flopped_boxes eng polylist w) = 0 \<and>
     y_extent (flopped_boxes eng polylist w) \<noteq> 0 \<longrightarrow>
      fst (writeSVG eng ofile polylist args w) = Inl ZeroDivisionError) \<and>
    (x_extent (flopped_boxes eng polylist w) \<noteq> 0 \<and>
     y_extent (flopped_boxes eng polylist w) = 0 \<longrightarrow>
      isl (fst (writeSVG eng ofile polylist args w)))"
proof -
  have ne: "flopped_boxes eng polylist w \<noteq> []"
    using assms(2) by (simp add: flopped_boxes_def)
  have len: "length [length (polys w)..<length (polys w) + length polylist] =
      length (flopped_boxes eng polylist w)"
    by (simp add: flopped_boxes_def)
  show ?thesis
    unfolding writeSVG_render [OF assms(1,3)]
    by (rule conjunct2 [OF svg_render_extent [OF ne len]])
qed

text \<open>
  Claim C5: for every non-empty polygon collection \<^verbatim>\<open>writeSVG\<close> fails with
  DegenerateExtent if and only if both aggregate extents are zero, and with exactly one
  zero extent the export completes without failing. The code does not do the second
  part, and by a slip of its own guard (see above): for the single polygon
  \<^verbatim>\<open>((0,0), (0,1), (0,2))\<close> on a vertical line, with an x-extent of 0 and a y-extent of 2,
  \<^verbatim>\<open>writeSVG(None, [p])\<close> does not complete but raises ZeroDivisionError.
\<close>

theorem svg_zero_x_extent_fails:
  "x_extent (flopped_boxes sample_engine [0] vertical_line) = 0 \<and>
   y_extent (flopped_boxes sample_engine [0] vertical_line) = 2 \<and>
   fst (writeSVG sample_engine ONone [0] no_args vertical_line) = Inl ZeroDivisionError"
  by (simp add: io_defs svg_defs sample_defs vertical_line_def x_extent_def y_extent_def
      flopped_boxes_def)

section \<open>Labels\<close>

lemma io_bind_Inr:
  assumes "io_bind m k w = (Inr y, w')"
  obtains x w1 where "m w = (Inr x, w1)" and "k x w1 = (Inr y, w')"
proof (cases "m w")
  case (Pair r w1)
  with assms show ?thesis
    using that by (cases r) (simp_all add: io_bind_def)
qed

lemma svg_polygon_labelled:
  assumes "svg_polygon eng ext cv labs coords str_dy str_anchor pp bbs n (s0, bufs0) w0 =
      (Inr (s, bufs), w)"
    and "truthy_list labs" and "\<not> truthy_list coords"
  shows "n < length pp \<and> streams w = streams w0 \<and>
    (\<forall>q. q \<noteq> pp ! n \<longrightarrow> polys w ! q = polys w0 ! q) \<and>
    (\<exists>path. s = s0 @ [SvgGroupOpen, path,
       SvgText (fst (center eng (polys w ! (pp ! n)))) (snd (center eng (polys w ! (pp ! n))))
         str_dy str_anchor (the_list labs ! n),
       SvgGroupClose])"
proof -
  obtain minx miny xdim ydim where ext: "ext = (minx, miny, xdim, ydim)"
    by (cases ext) auto
  obtain wv hv where cv: "cv = (wv, hv)"
    by (cases cv)
  obtain fc fo sc sw where bufs0: "bufs0 = (fc, fo, sc, sw)"
    by (cases bufs0) auto
  show ?thesis
    using assms
    by (auto simp: svg_polygon_def label_anchor_def ext cv bufs0 io_bind_def io_lift_def
        io_return_def io_gets_def Polygon_update_def Polygon_get_def nth_py_def
        split: sum.splits prod.splits if_splits)
qed


lemma svg_loop_labelled:
  assumes "fold_io [k..<m] (svg_polygon eng ext cv labs coords str_dy str_anchor pp bbs)
      (s0, bufs0) w0 = (Inr (s, bufs), w)"
    and "truthy_list labs" and "\<not> truthy_list coords" and "distinct pp"
  shows "streams w = streams w0 \<and>
    length s = length s0 + 4 * (m - k) \<and>
    take (length s0) s = s0 \<and>
    (\<forall>n. k \<le> n \<and> n < m \<longrightarrow> n < length pp \<and>
       s ! (length s0 + 4 * (n - k) + 2) =
         SvgText (fst (center eng (polys w ! (pp ! n)))) (snd (center eng (polys w ! (pp ! n))))
           str_dy str_anchor (the_list labs ! n)) \<and>
    (\<forall>q. q \<notin> (\<lambda>n. pp ! n) ` {k..<m} \<longrightarrow> polys w ! q = polys w0 ! q)"
  using assms(1)
proof (induction "m - k" arbitrary: k s0 bufs0 w0)
  case 0
  then have mk: "m \<le> k" by simp
  then have "[k..<m] = []" by simp
  with "0.prems" have "s = s0" "w = w0"
    by (simp_all add: io_return_def)
  with mk show ?case
    by auto
next
  case (Suc d)
  let ?body = "svg_polygon eng ext cv labs coords str_dy str_anchor pp bbs"
  let ?T = "\<lambda>w n. SvgText (fst (center eng (polys w ! (pp ! n))))
    (snd (center eng (polys w ! (pp ! n)))) str_dy str_anchor (the_list labs ! n)"
  from Suc.hyps(2) have km: "k < m" and d: "d = m - Suc k"
    by simp_all
  then have upt: "[k..<m] = k # [Suc k..<m]"
    by (simp add: upt_conv_Cons)
  from Suc.prems have "io_bind (?body k (s0, bufs0)) (fold_io [Suc k..<m] ?body) w0 =
      (Inr (s, bufs), w)"
    by (simp add: upt)
  then obtain st1 w1 where
    step: "?body k (s0, bufs0) w0 = (Inr st1, w1)" and
    rest: "fold_io [Suc k..<m] ?body st1 w1 = (Inr (s, bufs), w)"
    by (rule io_bind_Inr)
  obtain s1 bufs1 where st1: "st1 = (s1, bufs1)"
    by (cases st1)
  from svg_polygon_labelled [OF step [unfolded st1] assms(2,3)] obtain path where
    k_len: "k < length pp" and
    streams1: "streams w1 = streams w0" and
    frame1: "\<forall>q. q \<noteq> pp ! k \<longrightarrow> polys w1 ! q = polys w0 ! q" and
    s1: "s1 = s0 @ [SvgGroupOpen, path, ?T w1 k, SvgGroupClose]"
    by blast
  from Suc.hyps(1) [OF d rest [unfolded st1]] have
    streams2: "streams w = streams w1" and
    len: "length s = length s1 + 4 * (m - Suc k)" and
    pre: "take (length s1) s = s1" and
    later: "\<forall>n. Suc k \<le> n \<and> n < m \<longrightarrow> n < length pp \<and>
      s ! (length s1 + 4 * (n - Suc k) + 2) = ?T w n" and
    frame2: "\<forall>q. q \<notin> (\<lambda>n. pp ! n) ` {Suc k..<m} \<longrightarrow> polys w ! q = polys w1 ! q"
    by blast+
  have len1: "length s1 = length s0 + 4"
    by (simp add: s1)
  have "streams w = streams w0"
    using streams1 streams2 by simp
  moreover have "length s = length s0 + 4 * (m - k)"
  proof -
    have "m - k = Suc (m - Suc k)"
      using km by arith
    then show ?thesis
      using len len1 by simp
  qed
  moreover have "take (length s0) s = s0"
  proof -
    have "take (length s0) s = take (length s0) (take (length s1) s)"
      by (simp add: len1 min_def)
    also have "\<dots> = s0"
      by (simp add: pre) (simp add: s1)
    finally show ?thesis .
  qed
  moreover have "n < length pp \<and> s ! (length s0 + 4 * (n - k) + 2) = ?T w n"
    if n: "k \<le> n \<and> n < m" for n
  proof (cases "n = k")
    case True
    have "pp ! k \<notin> (\<lambda>n. pp ! n) ` {Suc k..<m}"
    proof
      assume "pp ! k \<in> (\<lambda>n. pp ! n) ` {Suc k..<m}"
      then obtain j where j: "Suc k \<le> j" "j < m" "pp ! k = pp ! j"
        by auto
      then have "j < length pp"
        using later by blast
      then have "k = j"
        using assms(4) k_len j(3) by (simp add: nth_eq_iff_index_eq)
      with j(1) show False by simp
    qed
    then have same: "polys w ! (pp ! k) = polys w1 ! (pp ! k)"
      using frame2 by blast
    have "s ! (length s0 + 2) = take (length s1) s ! (length s0 + 2)"
      by (simp add: len1)
    also have "\<dots> = ?T w1 k"
      by (simp add: pre) (simp add: s1 nth_append)
    finally show ?thesis
      using True k_len same by simp
  next
    case False
    with n have n': "Suc k \<le> n \<and> n < m"
      by simp
    then have "n - k = Suc (n - Suc k)"
      by arith
    then have "length s1 + 4 * (n - Suc k) + 2 = length s0 + 4 * (n - k) + 2"
      using len1 by simp
    then show ?thesis
      using later n' by metis
  qed
  moreover have "polys w ! q = polys w0 ! q" if q: "q \<notin> (\<lambda>n. pp ! n) ` {k..<m}" for q
  proof -
    have "q \<noteq> pp ! k"
      using q km by auto
    moreover have "q \<notin> (\<lambda>n. pp ! n) ` {Suc k..<m}"
      using q by auto
    ultimately show ?thesis
      using frame1 frame2 by simp
  qed
  ultimately show ?case
    by blast
qed

section \<open>Labels: claim\<close>

lemma svg_size_ok: "a \<noteq> 0 \<Longrightarrow> \<exists>w2 h2. svg_size a w0 h0 = Inr (w2, h2)"
  by (auto simp: svg_size_def Let_def pdiv_def split: option.splits)

lemma svg_render_label_checks:
  assumes "bbs \<noteq> []" and "x_extent bbs \<noteq> 0" and "y_extent bbs \<noteq> 0"
    and "truthy_list (labels args)"
  shows "(length (the_list (labels args)) \<noteq> length pp \<longrightarrow>
      fst (svg_render eng f cl args pp bbs w) = Inl LabelCountMismatch) \<and>
    (length (the_list (labels args)) = length pp \<and> truthy_list (labels_coords args) \<and>
     length (the_list (labels_coords args)) \<noteq> length (the_list (labels args)) \<longrightarrow>
      fst (svg_render eng f cl args pp bbs w) = Inl LabelCoordMismatch)"
proof -
  let ?a = "y_extent bbs / x_extent bbs"
  have "?a \<noteq> 0"
    using assms(2,3) by simp
  from svg_size_ok [OF this] obtain w2 h2 where
    size: "svg_size ?a (width args) (height args) = Inr (w2, h2)"
    by blast
  have nonempty: "the_list (labels args) \<noteq> []"
    using assms(4) by (auto simp: truthy_list_def the_list_def split: option.splits)
  have count: "svg_labels (length pp) (labels args) (labels_coords args) (labels_centered args) =
      Inl LabelCountMismatch"
    if "length (the_list (labels args)) \<noteq> length pp"
    using that assms(4) nonempty by (simp add: svg_labels_def Let_def)
  have coord: "svg_labels (length pp) (labels args) (labels_coords args) (labels_centered args) =
      Inl LabelCoordMismatch"
    if "length (the_list (labels args)) = length pp \<and> truthy_list (labels_coords args) \<and>
      length (the_list (labels_coords args)) \<noteq> length (the_list (labels args))"
  proof -
    from that nonempty have "pp \<noteq> []"
      by (metis length_0_conv)
    with that assms(4) show ?thesis
      by (simp add: svg_labels_def Let_def)
  qed
  have run: "fst (svg_render eng f cl args pp bbs w) = Inl e"
    if "svg_labels (length pp) (labels args) (labels_coords args) (labels_centered args) =
      Inl e" for e
    using that assms(2,3)
    by (simp add: svg_render_def io_bind_def io_lift_def extent_cases [OF assms(1)] pdiv_def
        size)
  show ?thesis
    using count coord run by blast
qed

lemma svg_render_Inr:
  assumes "svg_render eng f cl args pp bbs w3 = (Inr f', w')"
  obtains ext wv hv labs str_dy str_anchor s bufs w4 w5 where
    "svg_labels (length pp) (labels args) (labels_coords args) (labels_centered args) =
       Inr (labs, str_dy, str_anchor)"
    and "fold_io [0..<length pp]
       (svg_polygon eng ext (wv, hv) labs (labels_coords args) str_dy str_anchor pp bbs)
       ([SvgXmlDecl, SvgDoctype, SvgOpen wv hv],
        RingBuffer_init (or_default (fill_color args) default_colors),
        RingBuffer_init (or_default (fill_opacity args) [Num 1]),
        RingBuffer_init (or_default (stroke_color args) [Rgb 0 0 0]),
        RingBuffer_init (or_default (stroke_width args) [Num 1])) w3 = (Inr (s, bufs), w4)"
    and "fwrite f (SvgDocument (s @ [SvgEnd])) w4 = (Inr (), w5)"
    and "close_if cl f w5 = (Inr (), w')"
  using assms
  by (auto simp: svg_render_def io_bind_def io_lift_def io_return_def
      split: sum.splits prod.splits)


lemma svg_render_labelled:
  assumes run: "svg_render eng f cl args pp bbs w3 = (Inr f', w')"
    and labs: "truthy_list (labels args)"
    and coords: "\<not> truthy_list (labels_coords args)"
    and pp: "distinct pp"
    and f: "f < length (streams w3)"
  shows "\<exists>s. s_written (streams w' ! f) = s_written (streams w3 ! f) @ [SvgDocument s] \<and>
    (\<forall>n<length pp. s ! (4 * n + 5) =
       SvgText (fst (center eng (polys w' ! (pp ! n)))) (snd (center eng (polys w' ! (pp ! n))))
         (if labels_centered args then ''dy=\"0.3em\" '' else [])
         (if labels_centered args then ''text-anchor:middle;text-align:center'' else [])
         (the_list (labels args) ! n))"
proof -
  let ?dy = "if labels_centered args then ''dy=\"0.3em\" '' else []"
  let ?an = "if labels_centered args then ''text-anchor:middle;text-align:center'' else []"
  from run obtain ext wv hv labs' str_dy str_anchor s bufs w4 w5 where
    checked: "svg_labels (length pp) (labels args) (labels_coords args) (labels_centered args) =
      Inr (labs', str_dy, str_anchor)" and
    loop: "fold_io [0..<length pp]
      (svg_polygon eng ext (wv, hv) labs' (labels_coords args) str_dy str_anchor pp bbs)
      ([SvgXmlDecl, SvgDoctype, SvgOpen wv hv],
       RingBuffer_init (or_default (fill_color args) default_colors),
       RingBuffer_init (or_default (fill_opacity args) [Num 1]),
       RingBuffer_init (or_default (stroke_color args) [Rgb 0 0 0]),
       RingBuffer_init (or_default (stroke_width args) [Num 1])) w3 = (Inr (s, bufs), w4)" and
    written: "fwrite f (SvgDocument (s @ [SvgEnd])) w4 = (Inr (), w5)" and
    closed: "close_if cl f w5 = (Inr (), w')"
    by (rule svg_render_Inr)
  have nonempty: "the_list (labels args) \<noteq> []"
    using labs by (auto simp: truthy_list_def the_list_def split: option.splits)
  from checked labs coords nonempty have
    labs': "labs' = labels args" and dy: "str_dy = ?dy" and an: "str_anchor = ?an"
    by (auto simp: svg_labels_def Let_def split: if_splits)
  note inv = svg_loop_labelled [OF loop [unfolded labs'] labs coords pp]
  have streams4: "streams w4 = streams w3"
    using inv by blast
  have len: "length s = 3 + 4 * length pp"
    using inv by simp
  have texts: "s ! (4 * n + 5) =
      SvgText (fst (center eng (polys w4 ! (pp ! n)))) (snd (center eng (polys w4 ! (pp ! n))))
        ?dy ?an (the_list (labels args) ! n)" if "n < length pp" for n
  proof -
    have idx: "length [SvgXmlDecl, SvgDoctype, SvgOpen wv hv] + 4 * (n - 0) + 2 = 4 * n + 5"
      by simp
    from inv that have "s ! (length [SvgXmlDecl, SvgDoctype, SvgOpen wv hv] + 4 * (n - 0) + 2) =
        SvgText (fst (center eng (polys w4 ! (pp ! n)))) (snd (center eng (polys w4 ! (pp ! n))))
          str_dy str_anchor (the_list (labels args) ! n)"
      by blast
    then show ?thesis
      unfolding idx dy an .
  qed
  from written have
    polys5: "polys w5 = polys w4" and
    w5: "streams w5 = (streams w4)
      [f := (streams w4 ! f)\<lparr>s_written := s_written (streams w4 ! f) @ [SvgDocument (s @ [SvgEnd])]\<rparr>]"
    by (auto simp: fwrite_def split: if_splits)
  from closed have
    polys': "polys w' = polys w5" and
    w': "s_written (streams w' ! f) = s_written (streams w5 ! f)"
    using f streams4 w5
    by (auto simp: close_if_def fclose_def io_return_def split: if_splits)
  have doc: "s_written (streams w' ! f) =
      s_written (streams w3 ! f) @ [SvgDocument (s @ [SvgEnd])]"
    using f by (simp add: w' w5 streams4)
  have "(s @ [SvgEnd]) ! (4 * n + 5) =
      SvgText (fst (center eng (polys w' ! (pp ! n)))) (snd (center eng (polys w' ! (pp ! n))))
        ?dy ?an (the_list (labels args) ! n)" if "n < length pp" for n
  proof -
    have "4 * n + 5 < length s"
      using that len by simp
    then have "(s @ [SvgEnd]) ! (4 * n + 5) = s ! (4 * n + 5)"
      by (simp add: nth_append)
    then show ?thesis
      using texts that by (simp add: polys' polys5)
  qed
  with doc show ?thesis
    by blast
qed

text \<open>
  Claim C6. With labels supplied (a sequence that is not empty) and extents that are
  not zero, so that \<^verbatim>\<open>writeSVG\<close> gets as far as the checks of the labels: a number of
  labels other than the number of polygons fails with LabelCountMismatch; label
  coordinates (a sequence that is not empty) whose number is not the number of labels
  fail with LabelCoordMismatch; and when no coordinates are supplied and the call
  returns, the text line of polygon \<open>n\<close> in the document written (line \<open>4 n + 5\<close>) is
  anchored at \<^verbatim>\<open>center()\<close> of the clone of that polygon as it lies on the canvas, and
  carries label \<open>n\<close>.
\<close>

theorem svg_labels_checked:
  assumes "getWritableObject ofile w = (Inr (f, cl), w1)"
    and "f < length (streams w1)"
    and "\<forall>p \<in> set polylist. p < length (polys w)"
    and "truthy_list (labels args)"
  shows "(x_extent (flopped_boxes eng polylist w) \<noteq> 0 \<and>
     y_extent (flopped_boxes eng polylist w) \<noteq> 0 \<and> polylist \<noteq> [] \<and>
     length (the_list (labels args)) \<noteq> length polylist \<longrightarrow>
       fst (writeSVG eng ofile polylist args w) = Inl LabelCountMismatch) \<and>
    (x_extent (flopped_boxes eng polylist w) \<noteq> 0 \<and>
     y_extent (flopped_boxes eng polylist w) \<noteq> 0 \<and> 
     length (the_list (labels args)) = length polylist \<and>
     truthy_list (labels_coords args) \<and>
     length (the_list (labels_coords args)) \<noteq> length (the_list (labels args)) \<longrightarrow>
       fst (writeSVG eng ofile polylist args w) = Inl LabelCoordMismatch) \<and>
    (\<not> truthy_list (labels_coords args) \<and>
     writeSVG eng ofile polylist args w = (Inr f', w') \<longrightarrow>
       (\<exists>s. s_written (streams w' ! f) = s_written (streams w1 ! f) @ [SvgDocument s] \<and>
          (\<forall>n<length polylist. s ! (4 * n + 5) =
             SvgText (fst (center eng (polys w' ! (length (polys w) + n))))
               (snd (center eng (polys w' ! (length (polys w) + n))))
               (if labels_centered args then ''dy=\"0.3em\" '' else [])
               (if labels_centered args then ''text-anchor:middle;text-align:center'' else [])
               (the_list (labels args) ! n))))"
proof -
  let ?pp = "[length (polys w)..<length (polys w) + length polylist]"
  let ?bbs = "flopped_boxes eng polylist w"
  let ?w3 = "w1\<lparr>polys := polys w @ map (\<lambda>p. flop eng 0 (polys w ! p)) polylist\<rparr>"
  have render: "writeSVG eng ofile polylist args w = svg_render eng f cl args ?pp ?bbs ?w3"
    by (rule writeSVG_render [OF assms(1,3)])
  have nonempty: "the_list (labels args) \<noteq> []"
    using assms(4) by (auto simp: truthy_list_def the_list_def split: option.splits)
  have boxes: "?bbs \<noteq> []" if "polylist \<noteq> []"
    using that by (simp add: flopped_boxes_def)
  show ?thesis
  proof (intro conjI impI)
    assume a: "x_extent ?bbs \<noteq> 0 \<and> y_extent ?bbs \<noteq> 0 \<and> polylist \<noteq> [] \<and>
      length (the_list (labels args)) \<noteq> length polylist"
    then show "fst (writeSVG eng ofile polylist args w) = Inl LabelCountMismatch"
      using svg_render_label_checks [of ?bbs args ?pp eng f cl ?w3] boxes assms(4)
      by (simp add: render)
  next
    assume a: "x_extent ?bbs \<noteq> 0 \<and> y_extent ?bbs \<noteq> 0 \<and>
      length (the_list (labels args)) = length polylist \<and>
      truthy_list (labels_coords args) \<and>
      length (the_list (labels_coords args)) \<noteq> length (the_list (labels args))"
    then have "polylist \<noteq> []"
      using nonempty by (metis length_0_conv)
    with a show "fst (writeSVG eng ofile polylist args w) = Inl LabelCoordMismatch"
      using svg_render_label_checks [of ?bbs args ?pp eng f cl ?w3] boxes assms(4)
      by (simp add: render)
  next
    assume a: "\<not> truthy_list (labels_coords args) \<and>
      writeSVG eng ofile polylist args w = (Inr f', w')"
    then have run: "svg_render eng f cl args ?pp ?bbs ?w3 = (Inr f', w')"
      by (simp add: render)
    have "\<exists>s. s_written (streams w' ! f) = s_written (streams ?w3 ! f) @ [SvgDocument s] \<and>
      (\<forall>n<length ?pp. s ! (4 * n + 5) =
         SvgText (fst (center eng (polys w' ! (?pp ! n))))
           (snd (center eng (polys w' ! (?pp ! n))))
           (if labels_centered args then ''dy=\"0.3em\" '' else [])
           (if labels_centered args then ''text-anchor:middle;text-align:center'' else [])
           (the_list (labels args) ! n))"
      using a assms(2) by (intro svg_render_labelled [OF run assms(4)]) simp_all
    then show "\<exists>s. s_written (streams w' ! f) = s_written (streams w1 ! f) @ [SvgDocument s] \<and>
      (\<forall>n<length polylist. s ! (4 * n + 5) =
         SvgText (fst (center eng (polys w' ! (length (polys w) + n))))
           (snd (center eng (polys w' ! (length (polys w) + n))))
           (if labels_centered args then ''dy=\"0.3em\" '' else [])
           (if labels_centered args then ''text-anchor:middle;text-align:center'' else [])
           (the_list (labels args) ! n))"
      by simp
  qed
qed

theorem svg_labels_checked_witness:
  "fst (writeSVG sample_engine ONone [0, 1, 0] (no_args\<lparr>labels := Some [''a'', ''b'']\<rparr>)
     two_squares) = Inl LabelCountMismatch \<and>
   fst (writeSVG sample_engine ONone [0, 1]
     (no_args\<lparr>labels := Some [''a'', ''b''], labels_coords := Some [(0, 0)]\<rparr>)
     two_squares) = Inl LabelCoordMismatch \<and>
   s_written (streams (snd (writeSVG sample_engine (OStream 0) [0]
     (no_args\<lparr>labels := Some [''T'']\<rparr>) open_stream)) ! 0) =
     [SvgDocument
       [SvgXmlDecl, SvgDoctype, SvgOpen 300 300, SvgGroupOpen,
        SvgPath (Rgb 27 158 119) (Num 1) (Rgb 0 0 0) (Num 1) [((0, 300), [(300, 300), (0, 0)])],
        SvgText 100 200 [] [] ''T'', SvgGroupClose, SvgEnd]]"
proof -
  let ?w1 = "two_squares\<lparr>streams := [\<lparr>s_closed = False, s_text = [], s_written = []\<rparr>]\<rparr>"
  let ?two = "no_args\<lparr>labels := Some [''a'', ''b'']\<rparr>"
  let ?one = "no_args\<lparr>labels := Some [''a'', ''b''], labels_coords := Some [(0, 0)]\<rparr>"
  have res: "getWritableObject ONone two_squares = (Inr (0, False), ?w1)"
    by (simp add: io_defs two_squares_def)
  have f: "0 < length (streams ?w1)"
    by simp
  have valid: "\<forall>p \<in> set [0, 1, 0]. p < length (polys two_squares)"
    "\<forall>p \<in> set [0, 1]. p < length (polys two_squares)"
    by (simp_all add: two_squares_def)
  have labs: "truthy_list (labels ?two)" "truthy_list (labels ?one)"
    by (simp_all add: truthy_list_def no_args_def)
  have ext: "x_extent (flopped_boxes sample_engine [0, 1, 0] two_squares) = 3"
    "y_extent (flopped_boxes sample_engine [0, 1, 0] two_squares) = 3"
    "x_extent (flopped_boxes sample_engine [0, 1] two_squares) = 3"
    "y_extent (flopped_boxes sample_engine [0, 1] two_squares) = 3"
    by (simp_all add: sample_defs two_squares_def x_extent_def y_extent_def flopped_boxes_def
        bb0_def bb1_def bb2_def bb3_def)
  have count: "fst (writeSVG sample_engine ONone [0, 1, 0] ?two two_squares) =
      Inl LabelCountMismatch"
    using svg_labels_checked [OF res f valid(1) labs(1), of sample_engine] ext
    by (simp add: the_list_def no_args_def)
  have coord: "fst (writeSVG sample_engine ONone [0, 1] ?one two_squares) =
      Inl LabelCoordMismatch"
    using svg_labels_checked [OF res f valid(2) labs(2), of sample_engine] ext
    by (simp add: the_list_def truthy_list_def no_args_def)
  have doc: "s_written (streams (snd (writeSVG sample_engine (OStream 0) [0]
      (no_args\<lparr>labels := Some [''T'']\<rparr>) open_stream)) ! 0) =
      [SvgDocument
        [SvgXmlDecl, SvgDoctype, SvgOpen 300 300, SvgGroupOpen,
         SvgPath (Rgb 27 158 119) (Num 1) (Rgb 0 0 0) (Num 1) [((0, 300), [(300, 300), (0, 0)])],
         SvgText 100 200 [] [] ''T'', SvgGroupClose, SvgEnd]]"
    by (simp add: io_defs svg_defs sample_defs open_stream_def upt_rec [of 0] subpaths.simps)
  from count coord doc show ?thesis
    by simp
qed


end
